theory Spec2Isabelle
  imports Main
begin

section \<open>Data model\<close>

text \<open>
  The two modules of \<^verbatim>\<open>src/jit/lib\<close> (\<^verbatim>\<open>setupTrackingContext.js\<close>, build mode, and
  \<^verbatim>\<open>setupWatchingContext.js\<close>, watch mode) are embedded as functions over one explicit
  program state. Every mutation of the JavaScript (module-level caches, WeakMaps, the
  context objects, the file system) is a field update of that state; every exception is
  the \<open>Inl\<close> branch of a result, returned together with the state the mutations made
  before the throw left behind.
\<close>

type_synonym path = string
type_synonym hashv = string

text \<open>A file of the file system: \<^verbatim>\<open>fs.statSync(f).mtimeMs\<close> and its contents.\<close>

record fileinfo =
  mtimeMs :: int
  body :: string

text \<open>
  A JavaScript value handed to \<^verbatim>\<open>resolveConfig\<close>: a string or an object (opaque, named
  by a number).
\<close>

datatype jsvalue = JString string | JObject nat

text \<open>
  The argument \<^verbatim>\<open>configOrPath\<close>: undefined, a string, or an object with its
  \<^verbatim>\<open>config\<close> property (\<open>None\<close> when the property is undefined).
\<close>

datatype configOrPath = ArgUndefined | ArgString string | ArgObject nat "jsvalue option"

text \<open>
  An entry of the content list: a string (path or glob), an object whose \<^verbatim>\<open>raw\<close>
  property is a string (with its \<^verbatim>\<open>extension\<close>, possibly undefined), or any other object.
\<close>

datatype contentItem = ItemString string | ItemRaw string "string option" | ItemObject

text \<open>
  \<^verbatim>\<open>tailwindConfig.purge\<close>: an array, or an object whose \<^verbatim>\<open>content\<close> property is an
  array or undefined.
\<close>

datatype purgeOption = PurgeArray "contentItem list" | PurgeObject "contentItem list option"

record config =
  purge :: purgeOption
  settings :: nat

text \<open>A record of \<^verbatim>\<open>context.changedContent\<close>.\<close>

record changed =
  content :: string
  extension :: "string option"

datatype error =
    ENOENT path
  | TypeError
  | ModuleNotFound path

text \<open>What the code does to the outside world, in order.\<close>

datatype event =
    Stat path
  | ReadFile path
  | Glob "path list"
  | ModuleDependencies path
  | LoadModule path
  | Utimes path
  | OpenWrite path
  | RegisterDependency "path option" "string option"
  | ConsoleTime
  | ConsoleTimeEnd
  | LogInfo
  | WatcherClose nat

subsection \<open>The configuration cache (quick-lru)\<close>

text \<open>
  \<^verbatim>\<open>new LRU({ maxSize: 100 })\<close>. The library keeps two generations: a write goes to
  \<open>cache\<close>; when \<open>cache\<close> has taken \<open>maxSize\<close> new keys it becomes \<open>oldCache\<close> and the
  previous \<open>oldCache\<close> is dropped; a read that hits \<open>oldCache\<close> moves the entry to
  \<open>cache\<close>.
\<close>

record 'v lru =
  cache :: "path \<rightharpoonup> 'v"
  oldCache :: "path \<rightharpoonup> 'v"
  lsize :: nat

definition maxSize :: nat where
  "maxSize = 100"

definition lru_empty :: "'v lru" where
  "lru_empty = \<lparr>cache = Map.empty, oldCache = Map.empty, lsize = 0\<rparr>"

definition lru_put :: "path \<Rightarrow> 'v \<Rightarrow> 'v lru \<Rightarrow> 'v lru" where
  "lru_put k v l =
     (if Suc (lsize l) \<ge> maxSize
      then \<lparr>cache = Map.empty, oldCache = (cache l)(k \<mapsto> v), lsize = 0\<rparr>
      else l\<lparr>cache := (cache l)(k \<mapsto> v), lsize := Suc (lsize l)\<rparr>)"

definition lru_get :: "path \<Rightarrow> 'v lru \<Rightarrow> 'v option \<times> 'v lru" where
  "lru_get k l =
     (case cache l k of
        Some v \<Rightarrow> (Some v, l)
      | None \<Rightarrow>
          (case oldCache l k of
             Some v \<Rightarrow> (Some v, lru_put k v (l\<lparr>oldCache := (oldCache l)(k := None)\<rparr>))
           | None \<Rightarrow> (None, l)))"

definition lru_set :: "path \<Rightarrow> 'v \<Rightarrow> 'v lru \<Rightarrow> 'v lru" where
  "lru_set k v l =
     (case cache l k of
        Some _ \<Rightarrow> l\<lparr>cache := (cache l)(k \<mapsto> v)\<rparr>
      | None \<Rightarrow> lru_put k v l)"

subsection \<open>Contexts, watchers and the program state\<close>

text \<open>
  A context object, named by a number (its identity). \<open>ctx_disposables\<close> counts the
  callbacks pushed (every one of them closes the context's watcher).
\<close>

record jitContext =
  ctx_tailwindConfig :: config
  ctx_changedContent :: "changed list"
  ctx_disposables :: nat

text \<open>
  What an armed chokidar watcher closes over: the context, its touch file, the
  configuration path, and the paths it watches. The set \<^verbatim>\<open>configDependencies\<close> it
  consults is the context's own set object in \<^verbatim>\<open>configDependenciesCache\<close>, read at
  the time of the event.
\<close>

record watcher =
  w_context :: nat
  w_touchFile :: path
  w_configPath :: "path option"
  w_watched :: "path list"
  w_closed :: bool

text \<open>The callback of \<^verbatim>\<open>Promise.resolve(...).then\<close> in \<^verbatim>\<open>rebootWatcher\<close>, not run yet.\<close>

record pendingArm =
  p_context :: nat
  p_touchFile :: path
  p_configPath :: "path option"
  p_candidateFiles :: "path list"

text \<open>The PostCSS result: \<^verbatim>\<open>result.opts.from\<close> and \<^verbatim>\<open>result.messages\<close>.\<close>

record message =
  m_type :: string
  m_file :: "path option"

record postcssResult =
  opts_from :: "path option"
  messages :: "message list"

type_synonym trackingEntry = "config \<times> hashv \<times> path list \<times> (path \<rightharpoonup> int)"
type_synonym watchingEntry = "config \<times> int \<times> hashv"

text \<open>
  The program state. Objects live in stores indexed by their identity (\<open>contexts\<close>,
  \<open>fileModifiedMaps\<close>, \<open>watcherObjects\<close>); a WeakMap is a partial map from identities;
  a JavaScript \<^verbatim>\<open>Set\<close> is a duplicate-free list in insertion order.
\<close>

record state =
  fs :: "path \<rightharpoonup> fileinfo"
  dirs :: "path set"
  now :: int
  requireCache :: "path \<rightharpoonup> jsvalue"
  trace :: "event list"
  randomSource :: "nat \<Rightarrow> nat"
  randomPos :: nat
  contexts :: "nat \<Rightarrow> jitContext"
  nextContext :: nat
  contextMap :: "path option \<rightharpoonup> (hashv \<times> path option set \<times> nat)"
  fileModifiedMaps :: "nat \<Rightarrow> (path \<rightharpoonup> int)"
  configPathCache :: "trackingEntry lru"
  candidateFilesCache :: "nat \<rightharpoonup> path list"
  configPathCacheW :: "watchingEntry lru"
  candidateFilesCacheW :: "nat \<rightharpoonup> path list"
  configDependenciesCache :: "nat \<rightharpoonup> path list"
  scannedContentCache :: "nat set"
  watchers :: "nat \<rightharpoonup> nat"
  watcherObjects :: "nat \<Rightarrow> watcher"
  nextWatcher :: nat
  touchFiles :: "nat \<rightharpoonup> path"
  configPaths :: "nat \<rightharpoonup> path option"
  pending :: "pendingArm list"

text \<open>
  The collaborators outside the two modules (Node's \<^verbatim>\<open>path\<close>, \<^verbatim>\<open>fast-glob\<close>,
  \<^verbatim>\<open>is-glob\<close>, \<^verbatim>\<open>glob-parent\<close>, \<^verbatim>\<open>normalize-path\<close>, the module loader, and the
  repository's \<^verbatim>\<open>resolveConfigPath\<close>, \<^verbatim>\<open>getModuleDependencies\<close>, \<^verbatim>\<open>resolveConfig\<close>,
  \<^verbatim>\<open>hashConfig\<close>) and \<^verbatim>\<open>env\<close> are parameters of the model: every theorem holds for
  all of them. Those that read the disk take the file system; \<open>None\<close> is a throw.
  \<^verbatim>\<open>getModuleDependencies\<close> reads the module it is given, and the modules that one
  requires, each time it is called; the event \<open>ModuleDependencies\<close> records the call.
\<close>

record externs =
  resolveConfigPath :: "(path \<rightharpoonup> fileinfo) \<Rightarrow> configOrPath \<Rightarrow> path option"
  getModuleDependencies :: "(path \<rightharpoonup> fileinfo) \<Rightarrow> path \<Rightarrow> path list option"
  loadModule :: "(path \<rightharpoonup> fileinfo) \<Rightarrow> (path \<rightharpoonup> jsvalue) \<Rightarrow> path
                   \<Rightarrow> (jsvalue \<times> (path \<rightharpoonup> jsvalue)) option"
  requireResolve :: "(path \<rightharpoonup> fileinfo) \<Rightarrow> path \<Rightarrow> path option"
  resolveConfig :: "jsvalue \<Rightarrow> config"
  hash :: "config \<Rightarrow> hashv"
  fastGlobSync :: "(path \<rightharpoonup> fileinfo) \<Rightarrow> path list \<Rightarrow> path list"
  isGlob :: "path \<Rightarrow> bool"
  globParent :: "path \<Rightarrow> path"
  normalizePath :: "path \<Rightarrow> path"
  pathResolve :: "path list \<Rightarrow> path"
  pathDirname :: "path \<Rightarrow> path"
  pathExtname :: "path \<Rightarrow> string"
  pathJoin :: "path \<Rightarrow> string \<Rightarrow> path"
  cwd :: path
  pid :: string
  touchDir :: path
  env_DEBUG :: bool
  env_ROLLUP_WATCH :: "string option"
  env_TAILWIND_MODE :: "string option"
  env_NODE_ENV :: "string option"

section \<open>File system primitives\<close>

definition logEvent :: "event \<Rightarrow> state \<Rightarrow> state" where
  "logEvent e s = s\<lparr>trace := trace s @ [e]\<rparr>"

text \<open>\<^verbatim>\<open>fs.statSync(file).mtimeMs\<close>: throws when the file does not exist.\<close>

definition statSync :: "path \<Rightarrow> state \<Rightarrow> (error + int) \<times> state" where
  "statSync f s =
     (case fs s f of
        None \<Rightarrow> (Inl (ENOENT f), logEvent (Stat f) s)
      | Some i \<Rightarrow> (Inr (mtimeMs i), logEvent (Stat f) s))"

text \<open>\<^verbatim>\<open>fs.readFileSync(file, 'utf8')\<close>.\<close>

definition readFileSync :: "path \<Rightarrow> state \<Rightarrow> (error + string) \<times> state" where
  "readFileSync f s =
     (case fs s f of
        None \<Rightarrow> (Inl (ENOENT f), logEvent (ReadFile f) s)
      | Some i \<Rightarrow> (Inr (body i), logEvent (ReadFile f) s))"

text \<open>
  \<^verbatim>\<open>require(p)\<close>: the cached exports when the module is in \<^verbatim>\<open>require.cache\<close>, else
  the module is loaded from disk (which caches it and what it loads).
\<close>

definition require :: "externs \<Rightarrow> path \<Rightarrow> state \<Rightarrow> (error + jsvalue) \<times> state" where
  "require X p s =
     (case requireCache s p of
        Some m \<Rightarrow> (Inr m, s)
      | None \<Rightarrow>
          (case loadModule X (fs s) (requireCache s) p of
             None \<Rightarrow> (Inl (ModuleNotFound p), logEvent (LoadModule p) s)
           | Some (m, rc) \<Rightarrow> (Inr m, logEvent (LoadModule p) (s\<lparr>requireCache := rc\<rparr>))))"

text \<open>\<^verbatim>\<open>fs.utimesSync(filename, time, time)\<close>: throws when the file does not exist.\<close>

definition utimesSync :: "path \<Rightarrow> int \<Rightarrow> state \<Rightarrow> (error + unit) \<times> state" where
  "utimesSync f time s =
     (case fs s f of
        None \<Rightarrow> (Inl (ENOENT f), logEvent (Utimes f) s)
      | Some i \<Rightarrow> (Inr (), logEvent (Utimes f) (s\<lparr>fs := (fs s)(f \<mapsto> i\<lparr>mtimeMs := time\<rparr>)\<rparr>)))"

text \<open>
  \<^verbatim>\<open>fs.closeSync(fs.openSync(filename, 'w'))\<close>: creates the file empty (or truncates
  it), stamped with the current time; throws when its directory does not exist.
\<close>

definition openWrite :: "externs \<Rightarrow> path \<Rightarrow> state \<Rightarrow> (error + unit) \<times> state" where
  "openWrite X f s =
     (if pathDirname X f \<in> dirs s
      then (Inr (), logEvent (OpenWrite f) (s\<lparr>fs := (fs s)(f \<mapsto> \<lparr>mtimeMs = now s, body = []\<rparr>)\<rparr>))
      else (Inl (ENOENT f), logEvent (OpenWrite f) s))"

section \<open>The context cache: setupContextUtils.js\<close>

text \<open>
  \<^verbatim>\<open>getContext\<close> and \<^verbatim>\<open>getFileModifiedMap\<close> are imported from
  \<^verbatim>\<open>./setupContextUtils\<close>, which is not among the sources; the definitions of this
  section follow the spec (4.3, and ContextCacheEntry in 3). \<^verbatim>\<open>watcher.close()\<close> is the
  body of the disposable pushed at lines 515-520.
\<close>

definition closeWatcher :: "nat \<Rightarrow> state \<Rightarrow> state" where
  "closeWatcher wid s =
     logEvent (WatcherClose wid)
       (s\<lparr>watcherObjects := (watcherObjects s)(wid := (watcherObjects s wid)\<lparr>w_closed := True\<rparr>)\<rparr>)"

text \<open>
  Modelled from the spec: when the identity of a source changes, the disposables of the
  old context are invoked; each of them closes the watcher of that context.
\<close>

definition runDisposables :: "nat \<Rightarrow> state \<Rightarrow> state" where
  "runDisposables old s =
     (case watchers s old of
        None \<Rightarrow> s
      | Some wid \<Rightarrow> (closeWatcher wid ^^ ctx_disposables (contexts s old)) s)"

text \<open>
  Modelled from the spec: a new context starts with an empty \<open>changedContent\<close>, no
  disposables and an empty FileModifiedMap (created once per context).
\<close>

definition createContext :: "config \<Rightarrow> state \<Rightarrow> nat \<times> state" where
  "createContext cfg s =
     (let c = nextContext s
      in (c, s\<lparr>contexts := (contexts s)
                   (c := \<lparr>ctx_tailwindConfig = cfg, ctx_changedContent = [], ctx_disposables = 0\<rparr>),
               fileModifiedMaps := (fileModifiedMaps s)(c := Map.empty),
               nextContext := Suc c\<rparr>))"

text \<open>
  Modelled from the spec: \<^verbatim>\<open>getOrCreate(identity, factory) -> (context, isNewContext)\<close>.
  The entry of a source is keyed by (source identity, configuration hash, context
  dependency set); a request with the identity of the live entry returns that context
  with \<open>isNewContext = False\<close>; otherwise the old context is disposed of and a new one
  is created. An undefined configuration cannot be made into a context.
\<close>

definition getContext :: "string set \<Rightarrow> nat \<Rightarrow> postcssResult \<Rightarrow> config option \<Rightarrow> path option
    \<Rightarrow> hashv option \<Rightarrow> path option set \<Rightarrow> state \<Rightarrow> (error + nat \<times> bool) \<times> state" where
  "getContext tailwindDirectives root result tailwindConfig userConfigPath tailwindConfigHash
      contextDependencies s =
     (case (tailwindConfig, tailwindConfigHash) of
        (Some cfg, Some h) \<Rightarrow>
          (case contextMap s (opts_from result) of
             Some (h0, deps0, c0) \<Rightarrow>
               if h0 = h \<and> deps0 = contextDependencies then (Inr (c0, False), s)
               else
                 (case createContext cfg (runDisposables c0 s) of (c, s1) \<Rightarrow>
                    (Inr (c, True),
                     s1\<lparr>contextMap := (contextMap s1)(opts_from result \<mapsto> (h, contextDependencies, c))\<rparr>))
           | None \<Rightarrow>
               (case createContext cfg s of (c, s1) \<Rightarrow>
                  (Inr (c, True),
                   s1\<lparr>contextMap := (contextMap s1)(opts_from result \<mapsto> (h, contextDependencies, c))\<rparr>)))
      | _ \<Rightarrow> (Inl TypeError, s))"

text \<open>
  Modelled from the spec: \<^verbatim>\<open>getFileModifiedMap(context)\<close> hands out the context's own
  map; in the model a map is named by its context.
\<close>

definition getFileModifiedMap :: "nat \<Rightarrow> nat" where
  "getFileModifiedMap c = c"

section \<open>Build mode: setupTrackingContext.js\<close>

subsection \<open>getTailwindConfig\<close>

text \<open>
  The loop over \<^verbatim>\<open>newDeps\<close> (lines 52-60): stats every dependency, fills
  \<^verbatim>\<open>newModified\<close> and raises \<^verbatim>\<open>modified\<close>. \<open>isModified\<close> is the loop's condition
  \<^verbatim>\<open>!prevModified || !prevModified.has(file) || time > prevModified.get(file)\<close>.
\<close>

definition isModified :: "(path \<rightharpoonup> int) option \<Rightarrow> path \<Rightarrow> int \<Rightarrow> bool" where
  "isModified prevModified f time =
     (case prevModified of
        None \<Rightarrow> True
      | Some pm \<Rightarrow> (case pm f of None \<Rightarrow> True | Some t \<Rightarrow> time > t))"

fun statDeps :: "path list \<Rightarrow> (path \<rightharpoonup> int) option \<Rightarrow> bool \<Rightarrow> (path \<rightharpoonup> int) \<Rightarrow> state
                   \<Rightarrow> (error + bool \<times> (path \<rightharpoonup> int)) \<times> state" where
  "statDeps [] prevModified modified newModified s = (Inr (modified, newModified), s)"
| "statDeps (f # rest) prevModified modified newModified s =
     (case statSync f s of
        (Inl e, s1) \<Rightarrow> (Inl e, s1)
      | (Inr time, s1) \<Rightarrow>
          statDeps rest prevModified
            (if isModified prevModified f time then True else modified)
            (newModified(f \<mapsto> time)) s1)"

text \<open>\<^verbatim>\<open>configOrPath.config === undefined ? configOrPath : configOrPath.config\<close>.\<close>

definition inlineValue :: "configOrPath \<Rightarrow> error + jsvalue" where
  "inlineValue configOrPath =
     (case configOrPath of
        ArgUndefined \<Rightarrow> Inl TypeError
      | ArgString str \<Rightarrow> Inr (JString str)
      | ArgObject obj None \<Rightarrow> Inr (JObject obj)
      | ArgObject obj (Some c) \<Rightarrow> Inr c)"

text \<open>
  The result \<^verbatim>\<open>[config, userConfigPath, hash, dependencies]\<close>; a component is \<open>None\<close>
  when the JavaScript value is undefined (the path: null).
\<close>

type_synonym loaded = "config option \<times> path option \<times> hashv option \<times> path list option"

definition getTailwindConfig :: "externs \<Rightarrow> configOrPath \<Rightarrow> state \<Rightarrow> (error + loaded) \<times> state" where
  "getTailwindConfig X configOrPath s =
     (case resolveConfigPath X (fs s) configOrPath of
        Some userConfigPath \<Rightarrow>
          (case lru_get userConfigPath (configPathCache s) of (prev, l1) \<Rightarrow>
           let s1 = logEvent (ModuleDependencies userConfigPath) (s\<lparr>configPathCache := l1\<rparr>) in
           (case getModuleDependencies X (fs s) userConfigPath of
              None \<Rightarrow> (Inl (ModuleNotFound userConfigPath), s1)
            | Some newDeps \<Rightarrow>
               (case statDeps newDeps (map_option (\<lambda>(c, h, d, m). m) prev) False Map.empty s1 of
                  (Inl e, s2) \<Rightarrow> (Inl e, s2)
                | (Inr (modified, newModified), s2) \<Rightarrow>
                    if \<not> modified then
                      (Inr (map_option (\<lambda>(c, h, d, m). c) prev, Some userConfigPath,
                            map_option (\<lambda>(c, h, d, m). h) prev,
                            map_option (\<lambda>(c, h, d, m). d) prev), s2)
                    else
                      (case require X userConfigPath
                              (s2\<lparr>requireCache := requireCache s2 |` (- set newDeps)\<rparr>) of
                         (Inl e, s3) \<Rightarrow> (Inl e, s3)
                       | (Inr exports, s3) \<Rightarrow>
                           let newConfig = resolveConfig X exports;
                               newHash = hash X newConfig
                           in (Inr (Some newConfig, Some userConfigPath, Some newHash, Some newDeps),
                               s3\<lparr>configPathCache :=
                                    lru_set userConfigPath (newConfig, newHash, newDeps, newModified)
                                      (configPathCache s3)\<rparr>)))))
      | None \<Rightarrow>
          (case inlineValue configOrPath of
             Inl e \<Rightarrow> (Inl e, s)
           | Inr v \<Rightarrow>
               let newConfig = resolveConfig X v
               in (Inr (Some newConfig, None, Some (hash X newConfig), Some []), s)))"

subsection \<open>getCandidateFiles\<close>

text \<open>
  \<^verbatim>\<open>Array.isArray(tailwindConfig.purge) ? tailwindConfig.purge : tailwindConfig.purge.content\<close>;
  the method call on an undefined \<^verbatim>\<open>content\<close> throws.
\<close>

definition purgeContent :: "config \<Rightarrow> error + contentItem list" where
  "purgeContent tailwindConfig =
     (case purge tailwindConfig of
        PurgeArray items \<Rightarrow> Inr items
      | PurgeObject (Some items) \<Rightarrow> Inr items
      | PurgeObject None \<Rightarrow> Inl TypeError)"

text \<open>\<^verbatim>\<open>.filter((item) => typeof item === 'string')\<close>.\<close>

fun stringItems :: "contentItem list \<Rightarrow> string list" where
  "stringItems [] = []"
| "stringItems (ItemString p # rest) = p # stringItems rest"
| "stringItems (_ # rest) = stringItems rest"

text \<open>
  \<^verbatim>\<open>.filter((item) => typeof item.raw === 'string').map(({ raw, extension }) => ({ content: raw, extension }))\<close>.
\<close>

fun rawItems :: "contentItem list \<Rightarrow> changed list" where
  "rawItems [] = []"
| "rawItems (ItemRaw raw ext # rest) = \<lparr>content = raw, extension = ext\<rparr> # rawItems rest"
| "rawItems (_ # rest) = rawItems rest"

definition getCandidateFiles :: "externs \<Rightarrow> nat \<Rightarrow> path option \<Rightarrow> config \<Rightarrow> state
    \<Rightarrow> (error + path list) \<times> state" where
  "getCandidateFiles X c userConfigPath tailwindConfig s =
     (case candidateFilesCache s c of
        Some candidateFiles \<Rightarrow> (Inr candidateFiles, s)
      | None \<Rightarrow>
          (case purgeContent tailwindConfig of
             Inl e \<Rightarrow> (Inl e, s)
           | Inr items \<Rightarrow>
               let basePath = (case userConfigPath of None \<Rightarrow> cwd X | Some p \<Rightarrow> pathDirname X p);
                   candidateFiles =
                     map (\<lambda>purgePath. normalizePath X (pathResolve X [basePath, purgePath]))
                       (stringItems items)
               in (Inr candidateFiles,
                   s\<lparr>candidateFilesCache := (candidateFilesCache s)(c \<mapsto> candidateFiles)\<rparr>)))"

subsection \<open>resolveChangedFiles and resolvedChangedContent\<close>

text \<open>\<^verbatim>\<open>changedFiles.add(file)\<close> on a \<^verbatim>\<open>Set\<close>.\<close>

definition setAdd :: "'a \<Rightarrow> 'a list \<Rightarrow> 'a list" where
  "setAdd x xs = (if x \<in> set xs then xs else xs @ [x])"

text \<open>
  The loop of \<^verbatim>\<open>resolveChangedFiles\<close> (lines 106-114) over the files fast-glob found;
  \<open>m\<close> names the \<^verbatim>\<open>fileModifiedMap\<close> it reads and writes. A file that is not in the map
  has \<^verbatim>\<open>prevModified = -Infinity\<close>, below every timestamp.
\<close>

fun changedLoop :: "path list \<Rightarrow> nat \<Rightarrow> path list \<Rightarrow> state \<Rightarrow> (error + path list) \<times> state" where
  "changedLoop [] m changedFiles s = (Inr changedFiles, s)"
| "changedLoop (f # rest) m changedFiles s =
     (let prevModified = fileModifiedMaps s m f in
      case statSync f s of
        (Inl e, s1) \<Rightarrow> (Inl e, s1)
      | (Inr modified, s1) \<Rightarrow>
          if (case prevModified of None \<Rightarrow> True | Some t \<Rightarrow> modified > t)
          then changedLoop rest m (setAdd f changedFiles)
                 (s1\<lparr>fileModifiedMaps :=
                       (fileModifiedMaps s1)(m := (fileModifiedMaps s1 m)(f \<mapsto> modified))\<rparr>)
          else changedLoop rest m changedFiles s1)"

definition resolveChangedFiles :: "externs \<Rightarrow> path list \<Rightarrow> nat \<Rightarrow> state
    \<Rightarrow> (error + path list) \<times> state" where
  "resolveChangedFiles X candidateFiles m s =
     (let s0 = (if env_DEBUG X then logEvent ConsoleTime s else s);
          files = fastGlobSync X (fs s0) candidateFiles
      in case changedLoop files m [] (logEvent (Glob candidateFiles) s0) of
           (Inl e, s1) \<Rightarrow> (Inl e, s1)
         | (Inr changedFiles, s1) \<Rightarrow>
             (Inr changedFiles, if env_DEBUG X then logEvent ConsoleTimeEnd s1 else s1))"

text \<open>
  The loop of \<^verbatim>\<open>resolvedChangedContent\<close> (lines 94-98): reads every changed file and
  pushes its content with \<^verbatim>\<open>path.extname(changedFile).slice(1)\<close>.
\<close>

fun readLoop :: "externs \<Rightarrow> path list \<Rightarrow> changed list \<Rightarrow> state \<Rightarrow> (error + changed list) \<times> state" where
  "readLoop X [] acc s = (Inr acc, s)"
| "readLoop X (changedFile # rest) acc s =
     (case readFileSync changedFile s of
        (Inl e, s1) \<Rightarrow> (Inl e, s1)
      | (Inr fileContent, s1) \<Rightarrow>
          readLoop X rest
            (acc @ [\<lparr>content = fileContent,
                     extension = Some (drop 1 (pathExtname X changedFile))\<rparr>]) s1)"

definition resolvedChangedContent :: "externs \<Rightarrow> nat \<Rightarrow> path list \<Rightarrow> nat \<Rightarrow> state
    \<Rightarrow> (error + changed list) \<times> state" where
  "resolvedChangedContent X c candidateFiles fileModifiedMap s =
     (case purgeContent (ctx_tailwindConfig (contexts s c)) of
        Inl e \<Rightarrow> (Inl e, s)
      | Inr items \<Rightarrow>
          (case resolveChangedFiles X candidateFiles fileModifiedMap s of
             (Inl e, s1) \<Rightarrow> (Inl e, s1)
           | (Inr changedFiles, s1) \<Rightarrow> readLoop X changedFiles (rawItems items) s1))"

subsection \<open>setupTrackingContext\<close>

text \<open>
  The set \<^verbatim>\<open>contextDependencies\<close> of lines 129-146, and of the same lines 479-496 of
  watch mode.
\<close>

definition collectContextDependencies :: "path option list \<Rightarrow> string set \<Rightarrow> postcssResult
    \<Rightarrow> path option set" where
  "collectContextDependencies configDependencies tailwindDirectives result =
     (if tailwindDirectives \<noteq> {}
      then set configDependencies \<union> {opts_from result} \<union>
           set (map m_file (filter (\<lambda>message. m_type message = ''dependency'') (messages result)))
      else set configDependencies)"

text \<open>\<^verbatim>\<open>context.changedContent.push(changedContent)\<close>.\<close>

definition pushChanged :: "nat \<Rightarrow> changed \<Rightarrow> state \<Rightarrow> state" where
  "pushChanged c entry s =
     s\<lparr>contexts := (contexts s)
          (c := (contexts s c)\<lparr>ctx_changedContent := ctx_changedContent (contexts s c) @ [entry]\<rparr>)\<rparr>"

text \<open>\<^verbatim>\<open>registerDependency\<close> is the host's callback: the call is recorded.\<close>

definition registerDependency :: "path option \<Rightarrow> string option \<Rightarrow> state \<Rightarrow> state" where
  "registerDependency file kind s = logEvent (RegisterDependency file kind) s"

definition registerCandidate :: "externs \<Rightarrow> state \<Rightarrow> path \<Rightarrow> state" where
  "registerCandidate X s maybeGlob =
     (if isGlob X maybeGlob
      then registerDependency (Some (pathResolve X [globParent X maybeGlob]))
             (Some (if env_ROLLUP_WATCH X = Some ''true'' then ''dependency'' else ''dir-dependency'')) s
      else registerDependency (Some (pathResolve X [maybeGlob])) None s)"

text \<open>
  The function \<^verbatim>\<open>setupTrackingContext(configOrPath, tailwindDirectives,
  registerDependency)\<close> returns, applied to \<^verbatim>\<open>(result, root)\<close>. \<^verbatim>\<open>new Set(undefined)\<close> is
  empty; iterating an undefined \<^verbatim>\<open>configDependencies\<close> throws.
\<close>

definition setupTrackingContext :: "externs \<Rightarrow> configOrPath \<Rightarrow> string set \<Rightarrow> postcssResult \<Rightarrow> nat
    \<Rightarrow> state \<Rightarrow> (error + nat) \<times> state" where
  "setupTrackingContext X configOrPath tailwindDirectives result root s =
     (case getTailwindConfig X configOrPath s of
        (Inl e, s1) \<Rightarrow> (Inl e, s1)
      | (Inr (tailwindConfig, userConfigPath, tailwindConfigHash, configDependencies), s1) \<Rightarrow>
          (case getContext tailwindDirectives root result tailwindConfig userConfigPath
                  tailwindConfigHash
                  (collectContextDependencies
                     (case configDependencies of None \<Rightarrow> [] | Some ds \<Rightarrow> map Some ds)
                     tailwindDirectives result) s1 of
             (Inl e, s2) \<Rightarrow> (Inl e, s2)
           | (Inr (c, isNewContext), s2) \<Rightarrow>
               (case tailwindConfig of
                  None \<Rightarrow> (Inl TypeError, s2)
                | Some cfg \<Rightarrow>
                    (case getCandidateFiles X c userConfigPath cfg s2 of
                       (Inl e, s3) \<Rightarrow> (Inl e, s3)
                     | (Inr candidateFiles, s3) \<Rightarrow>
                         (case
                            (if tailwindDirectives \<noteq> {} then
                               (case resolvedChangedContent X c candidateFiles (getFileModifiedMap c)
                                       (foldl (registerCandidate X) s3 candidateFiles) of
                                  (Inl e, s4) \<Rightarrow> (Inl e, s4)
                                | (Inr changedContents, s4) \<Rightarrow>
                                    (Inr (), foldl (\<lambda>s entry. pushChanged c entry s) s4 changedContents))
                             else (Inr (), s3)) of
                            (Inl e, s5) \<Rightarrow> (Inl e, s5)
                          | (Inr _, s5) \<Rightarrow>
                              (case configDependencies of
                                 None \<Rightarrow> (Inl TypeError, s5)
                               | Some ds \<Rightarrow>
                                   (Inr c, foldl (\<lambda>s file. registerDependency (Some file) None s)
                                             s5 ds)))))))"

section \<open>Watch mode: setupWatchingContext.js\<close>

subsection \<open>getTailwindConfig\<close>

text \<open>
  Watch mode compares the configuration file's own timestamp only; \<^verbatim>\<open>prevModified\<close>
  defaults to \<^verbatim>\<open>-Infinity\<close>, so without a cache entry the file always counts as changed.
  The dependencies are \<^verbatim>\<open>[userConfigPath]\<close> on every path, also where
  \<^verbatim>\<open>userConfigPath\<close> is null.
\<close>

type_synonym loadedW = "config option \<times> path option \<times> hashv option \<times> path option list"

definition getTailwindConfigW :: "externs \<Rightarrow> configOrPath \<Rightarrow> state \<Rightarrow> (error + loadedW) \<times> state" where
  "getTailwindConfigW X configOrPath s =
     (case resolveConfigPath X (fs s) configOrPath of
        Some userConfigPath \<Rightarrow>
          (case lru_get userConfigPath (configPathCacheW s) of (prev, l1) \<Rightarrow>
           (case statSync userConfigPath (s\<lparr>configPathCacheW := l1\<rparr>) of
              (Inl e, s1) \<Rightarrow> (Inl e, s1)
            | (Inr modified, s1) \<Rightarrow>
                if (case prev of None \<Rightarrow> False | Some (c, prevModified, h) \<Rightarrow> modified \<le> prevModified)
                then
                  (Inr (map_option (\<lambda>(c, m, h). c) prev, Some userConfigPath,
                        map_option (\<lambda>(c, m, h). h) prev, [Some userConfigPath]), s1)
                else
                  (case require X userConfigPath
                          (s1\<lparr>requireCache := (requireCache s1)(userConfigPath := None)\<rparr>) of
                     (Inl e, s2) \<Rightarrow> (Inl e, s2)
                   | (Inr exports, s2) \<Rightarrow>
                       let newConfig = resolveConfig X exports;
                           newHash = hash X newConfig
                       in (Inr (Some newConfig, Some userConfigPath, Some newHash,
                                [Some userConfigPath]),
                           s2\<lparr>configPathCacheW :=
                                lru_set userConfigPath (newConfig, modified, newHash)
                                  (configPathCacheW s2)\<rparr>))))
      | None \<Rightarrow>
          (case inlineValue configOrPath of
             Inl e \<Rightarrow> (Inl e, s)
           | Inr v \<Rightarrow>
               let newConfig = resolveConfig X v
               in (Inr (Some newConfig, None, Some (hash X newConfig), [None]), s)))"

subsection \<open>touch and the touch files\<close>

definition touch :: "externs \<Rightarrow> path \<Rightarrow> state \<Rightarrow> (error + unit) \<times> state" where
  "touch X filename s =
     (let time = now s in
      case utimesSync filename time s of
        (Inr u, s1) \<Rightarrow> (Inr u, s1)
      | (Inl err, s1) \<Rightarrow> openWrite X filename s1)"

definition chars :: string where
  "chars = ''0123456789ABCDEFGHIJKLMNOPQRSTUVWXYZabcdefghijklmnopqrstuvwxyz''"

definition randomCharsLength :: nat where
  "randomCharsLength = 12"

text \<open>
  \<^verbatim>\<open>crypto.randomBytes\<close> (or \<^verbatim>\<open>pseudoRandomBytes\<close>) draws the next twelve bytes of the
  state's random source.
\<close>

definition generateTouchFileName :: "externs \<Rightarrow> state \<Rightarrow> path \<times> state" where
  "generateTouchFileName X s =
     (let bytes = map (\<lambda>i. randomSource s (randomPos s + i) mod 256) [0..<randomCharsLength];
          randomChars = map (\<lambda>b. chars ! (b mod length chars)) bytes
      in (pathJoin X (touchDir X) (''touch-'' @ pid X @ ''-'' @ randomChars),
          s\<lparr>randomPos := randomPos s + randomCharsLength\<rparr>))"

definition getConfigPath :: "externs \<Rightarrow> nat \<Rightarrow> configOrPath \<Rightarrow> state \<Rightarrow> path option \<times> state" where
  "getConfigPath X c configOrPath s =
     (case configPaths s c of
        Some p \<Rightarrow> (p, s)
      | None \<Rightarrow>
          (let p = resolveConfigPath X (fs s) configOrPath
           in (p, s\<lparr>configPaths := (configPaths s)(c \<mapsto> p)\<rparr>)))"

definition getConfigDependencies :: "nat \<Rightarrow> state \<Rightarrow> state" where
  "getConfigDependencies c s =
     (case configDependenciesCache s c of
        Some _ \<Rightarrow> s
      | None \<Rightarrow> s\<lparr>configDependenciesCache := (configDependenciesCache s)(c \<mapsto> [])\<rparr>)"

text \<open>The elements of the context's \<^verbatim>\<open>configDependencies\<close> set, as the state has them now.\<close>

definition configDependenciesOf :: "state \<Rightarrow> nat \<Rightarrow> path list" where
  "configDependenciesOf s c = (case configDependenciesCache s c of None \<Rightarrow> [] | Some ds \<Rightarrow> ds)"

subsection \<open>rebootWatcher and the watcher's handlers\<close>

text \<open>
  The handlers share the reading of the file: \<^verbatim>\<open>path.resolve('.', file)\<close>,
  \<^verbatim>\<open>readFileSync\<close>, the push on \<^verbatim>\<open>context.changedContent\<close>, \<^verbatim>\<open>touch(touchFile)\<close>
  (lines 313-317 and 332-336).
\<close>

definition readAndTouch :: "externs \<Rightarrow> watcher \<Rightarrow> path \<Rightarrow> state \<Rightarrow> (error + unit) \<times> state" where
  "readAndTouch X w file s =
     (let changedFile = pathResolve X [''.'', file] in
      case readFileSync changedFile s of
        (Inl e, s1) \<Rightarrow> (Inl e, s1)
      | (Inr fileContent, s1) \<Rightarrow>
          touch X (w_touchFile w)
            (pushChanged (w_context w)
               \<lparr>content = fileContent,
                extension = Some (drop 1 (pathExtname X changedFile))\<rparr> s1))"

text \<open>
  \<^verbatim>\<open>for (let dependency of configDependencies) delete require.cache[require.resolve(dependency)]\<close>;
  \<^verbatim>\<open>require.resolve\<close> throws on a module it cannot find.
\<close>

fun invalidate :: "externs \<Rightarrow> path list \<Rightarrow> state \<Rightarrow> (error + unit) \<times> state" where
  "invalidate X [] s = (Inr (), s)"
| "invalidate X (dependency # rest) s =
     (case requireResolve X (fs s) dependency of
        None \<Rightarrow> (Inl (ModuleNotFound dependency), s)
      | Some k \<Rightarrow> invalidate X rest (s\<lparr>requireCache := (requireCache s)(k := None)\<rparr>))"

text \<open>
  Lines 327-330 and 343-346: \<^verbatim>\<open>touch(configPath)\<close> after the invalidation; both
  \<^verbatim>\<open>utimesSync\<close> and \<^verbatim>\<open>openSync\<close> throw on a null path.
\<close>

definition touchConfig :: "externs \<Rightarrow> watcher \<Rightarrow> state \<Rightarrow> (error + unit) \<times> state" where
  "touchConfig X w s =
     (case invalidate X (configDependenciesOf s (w_context w)) s of
        (Inl e, s1) \<Rightarrow> (Inl e, s1)
      | (Inr _, s1) \<Rightarrow>
          (case w_configPath w of
             None \<Rightarrow> (Inl TypeError, s1)
           | Some configPath \<Rightarrow> touch X configPath s1))"

text \<open>\<^verbatim>\<open>watcher.on('add', ...)\<close>, lines 312-318.\<close>

definition onAdd :: "externs \<Rightarrow> watcher \<Rightarrow> path \<Rightarrow> state \<Rightarrow> (error + unit) \<times> state" where
  "onAdd X w file s = readAndTouch X w file s"

text \<open>\<^verbatim>\<open>watcher.on('change', ...)\<close>, lines 320-338.\<close>

definition onChange :: "externs \<Rightarrow> watcher \<Rightarrow> path \<Rightarrow> state \<Rightarrow> (error + unit) \<times> state" where
  "onChange X w file s =
     (if file \<in> set (configDependenciesOf s (w_context w))
      then touchConfig X w s
      else readAndTouch X w file s)"

text \<open>\<^verbatim>\<open>watcher.on('unlink', ...)\<close>, lines 340-348.\<close>

definition onUnlink :: "externs \<Rightarrow> watcher \<Rightarrow> path \<Rightarrow> state \<Rightarrow> (error + unit) \<times> state" where
  "onUnlink X w file s =
     (if file \<in> set (configDependenciesOf s (w_context w))
      then touchConfig X w s
      else (Inr (), s))"

text \<open>
  The callback of the promise (lines 301-348): logs, starts the watcher over the candidate
  files and the configuration dependencies of that moment, and stores it for the context.
\<close>

definition armWatcher :: "pendingArm \<Rightarrow> state \<Rightarrow> state" where
  "armWatcher pa s =
     (let s1 = logEvent LogInfo s;
          wid = nextWatcher s1
      in s1\<lparr>watcherObjects := (watcherObjects s1)
               (wid := \<lparr>w_context = p_context pa, w_touchFile = p_touchFile pa,
                        w_configPath = p_configPath pa,
                        w_watched = p_candidateFiles pa @ configDependenciesOf s1 (p_context pa),
                        w_closed = False\<rparr>),
             watchers := (watchers s1)(p_context pa \<mapsto> wid),
             nextWatcher := Suc wid\<rparr>)"

definition rebootWatcher :: "externs \<Rightarrow> nat \<Rightarrow> path option \<Rightarrow> path list \<Rightarrow> state
    \<Rightarrow> (error + unit) \<times> state" where
  "rebootWatcher X c configPath candidateFiles s =
     (case (case touchFiles s c of
              Some touchFile \<Rightarrow> (Inr touchFile, s)
            | None \<Rightarrow>
                (case generateTouchFileName X s of (touchFile, s1) \<Rightarrow>
                   (case touch X touchFile (s1\<lparr>touchFiles := (touchFiles s1)(c \<mapsto> touchFile)\<rparr>) of
                      (Inl e, s2) \<Rightarrow> (Inl e, s2)
                    | (Inr _, s2) \<Rightarrow> (Inr touchFile, s2)))) of
        (Inl e, s2) \<Rightarrow> (Inl e, s2)
      | (Inr touchFile, s2) \<Rightarrow>
          if env_TAILWIND_MODE X = Some ''build'' then (Inr (), s2)
          else if env_TAILWIND_MODE X = Some ''watch'' \<or>
                  (env_TAILWIND_MODE X = None \<and> env_NODE_ENV X = Some ''development'')
          then
            (let s3 = (case watchers s2 c of None \<Rightarrow> s2 | Some wid \<Rightarrow> closeWatcher wid s2)
             in (Inr (), s3\<lparr>pending := pending s3 @
                   [\<lparr>p_context = c, p_touchFile = touchFile, p_configPath = configPath,
                     p_candidateFiles = candidateFiles\<rparr>]\<rparr>))
          else (Inr (), s2))"

subsection \<open>getCandidateFiles, resolveChangedFiles and resolvedChangedContent\<close>

definition getCandidateFilesW :: "externs \<Rightarrow> nat \<Rightarrow> path option \<Rightarrow> config \<Rightarrow> state
    \<Rightarrow> (error + path list) \<times> state" where
  "getCandidateFilesW X c userConfigPath tailwindConfig s =
     (case candidateFilesCacheW s c of
        Some candidateFiles \<Rightarrow> (Inr candidateFiles, s)
      | None \<Rightarrow>
          (case purgeContent tailwindConfig of
             Inl e \<Rightarrow> (Inl e, s)
           | Inr items \<Rightarrow>
               let basePath = (case userConfigPath of None \<Rightarrow> cwd X | Some p \<Rightarrow> pathDirname X p);
                   candidateFiles =
                     map (\<lambda>purgePath. normalizePath X (pathResolve X [basePath, purgePath]))
                       (stringItems items)
               in (Inr candidateFiles,
                   s\<lparr>candidateFilesCacheW := (candidateFilesCacheW s)(c \<mapsto> candidateFiles)\<rparr>)))"

text \<open>
  Lines 452-467: the files are globbed once per context; \<^verbatim>\<open>scannedContentCache\<close> holds
  the contexts already scanned.
\<close>

definition resolveChangedFilesW :: "externs \<Rightarrow> nat \<Rightarrow> path list \<Rightarrow> state \<Rightarrow> path list \<times> state" where
  "resolveChangedFilesW X c candidateFiles s =
     (if c \<notin> scannedContentCache s
      then (foldl (\<lambda>changedFiles file. setAdd file changedFiles) []
              (fastGlobSync X (fs s) candidateFiles),
            (logEvent (Glob candidateFiles) s)
              \<lparr>scannedContentCache := insert c (scannedContentCache s)\<rparr>)
      else ([], s))"

definition resolvedChangedContentW :: "externs \<Rightarrow> nat \<Rightarrow> path list \<Rightarrow> state
    \<Rightarrow> (error + changed list) \<times> state" where
  "resolvedChangedContentW X c candidateFiles s =
     (case purgeContent (ctx_tailwindConfig (contexts s c)) of
        Inl e \<Rightarrow> (Inl e, s)
      | Inr items \<Rightarrow>
          (case resolveChangedFilesW X c candidateFiles s of
             (changedFiles, s1) \<Rightarrow> readLoop X changedFiles (rawItems items) s1))"

subsection \<open>setupWatchingContext\<close>

text \<open>
  Lines 525-531: every module dependency but the configuration file itself joins the
  context's \<^verbatim>\<open>configDependencies\<close> set.
\<close>

definition addConfigDependencies :: "nat \<Rightarrow> path \<Rightarrow> path list \<Rightarrow> state \<Rightarrow> state" where
  "addConfigDependencies c configPath files s =
     s\<lparr>configDependenciesCache := (configDependenciesCache s)
          (c \<mapsto> foldl (\<lambda>ds file. if file = configPath then ds else setAdd file ds)
                  (configDependenciesOf s c) files)\<rparr>"

text \<open>
  Lines 509-543 of the function \<^verbatim>\<open>setupWatchingContext\<close> returns: the configuration
  dependencies are registered, the disposable is pushed, the module dependencies join
  the context's set, a new context gets its watcher, the touch file is registered.
\<close>

definition prepareWatcher :: "externs \<Rightarrow> configOrPath \<Rightarrow> nat \<Rightarrow> bool \<Rightarrow> path list
    \<Rightarrow> path option list \<Rightarrow> state \<Rightarrow> (error + unit) \<times> state" where
  "prepareWatcher X configOrPath c isNewContext candidateFiles configDependencies s3 =
     (let s4 = foldl (\<lambda>s file. registerDependency file None s)
                 (getConfigDependencies c s3) configDependencies;
          s5 = s4\<lparr>contexts := (contexts s4)
                    (c := (contexts s4 c)
                       \<lparr>ctx_disposables := Suc (ctx_disposables (contexts s4 c))\<rparr>)\<rparr>
      in case getConfigPath X c configOrPath s5 of (configPath, s6) \<Rightarrow>
        (case
           (case configPath of
              None \<Rightarrow> (Inr (), s6)
            | Some cp \<Rightarrow>
                (case getModuleDependencies X (fs s6) cp of
                   None \<Rightarrow> (Inl (ModuleNotFound cp), logEvent (ModuleDependencies cp) s6)
                 | Some files \<Rightarrow>
                     (Inr (), addConfigDependencies c cp files
                                (logEvent (ModuleDependencies cp) s6)))) of
           (Inl e, s7) \<Rightarrow> (Inl e, s7)
         | (Inr _, s7) \<Rightarrow>
             (case
                (if isNewContext then rebootWatcher X c configPath candidateFiles s7
                 else (Inr (), s7)) of
                (Inl e, s8) \<Rightarrow> (Inl e, s8)
              | (Inr _, s8) \<Rightarrow>
                  (Inr (), (case touchFiles s8 c of
                              None \<Rightarrow> s8
                            | Some touchFile \<Rightarrow>
                                if touchFile \<noteq> [] then
                                  registerDependency (Some touchFile) None s8
                                else s8)))))"

text \<open>
  The function \<^verbatim>\<open>setupWatchingContext(configOrPath, tailwindDirectives,
  registerDependency)\<close> returns, applied to \<^verbatim>\<open>(result, root)\<close>.
\<close>

definition setupWatchingContext :: "externs \<Rightarrow> configOrPath \<Rightarrow> string set \<Rightarrow> postcssResult \<Rightarrow> nat
    \<Rightarrow> state \<Rightarrow> (error + nat) \<times> state" where
  "setupWatchingContext X configOrPath tailwindDirectives result root s =
     (case getTailwindConfigW X configOrPath s of
        (Inl e, s1) \<Rightarrow> (Inl e, s1)
      | (Inr (tailwindConfig, userConfigPath, tailwindConfigHash, configDependencies), s1) \<Rightarrow>
          (case getContext tailwindDirectives root result tailwindConfig userConfigPath
                  tailwindConfigHash
                  (collectContextDependencies configDependencies tailwindDirectives result) s1 of
             (Inl e, s2) \<Rightarrow> (Inl e, s2)
           | (Inr (c, isNewContext), s2) \<Rightarrow>
               (case tailwindConfig of
                  None \<Rightarrow> (Inl TypeError, s2)
                | Some cfg \<Rightarrow>
                    (case getCandidateFilesW X c userConfigPath cfg s2 of
                       (Inl e, s3) \<Rightarrow> (Inl e, s3)
                     | (Inr candidateFiles, s3) \<Rightarrow>
                         (case prepareWatcher X configOrPath c isNewContext candidateFiles
                                 configDependencies s3 of
                            (Inl e, s9) \<Rightarrow> (Inl e, s9)
                          | (Inr _, s9) \<Rightarrow>
                              if tailwindDirectives \<noteq> {} then
                                (case resolvedChangedContentW X c candidateFiles s9 of
                                   (Inl e, s10) \<Rightarrow> (Inl e, s10)
                                 | (Inr changedContents, s10) \<Rightarrow>
                                     (Inr c, foldl (\<lambda>s entry. pushChanged c entry s)
                                               s10 changedContents))
                              else (Inr c, s9))))))"

section \<open>A sample project\<close>

text \<open>
  The scenario of the spec, for evaluating the model: the configuration
  \<^verbatim>\<open>/proj/tw.config\<close> (which requires \<^verbatim>\<open>/proj/theme.js\<close>) declares the content
  \<^verbatim>\<open>src/**/*.html\<close> and one inline raw entry; \<^verbatim>\<open>/proj/src/a.html\<close> exists.
\<close>

definition sampleConfig :: "nat \<Rightarrow> config" where
  "sampleConfig n =
     \<lparr>purge = PurgeObject (Some [ItemString ''src/**/*.html'',
                                 ItemRaw ''<div class=p-4>'' (Some ''html'')]),
      settings = n\<rparr>"

definition sampleX :: externs where
  "sampleX =
     \<lparr>resolveConfigPath =
        (\<lambda>fsm a. case a of ArgString p \<Rightarrow> Some p
                  | ArgObject obj (Some (JString p)) \<Rightarrow> Some p
                  | _ \<Rightarrow> None),
      getModuleDependencies =
        (\<lambda>fsm p. case fsm p of None \<Rightarrow> None
                  | Some i \<Rightarrow> Some (if p = ''/proj/tw.config'' then [p, ''/proj/theme.js''] else [p])),
      loadModule =
        (\<lambda>fsm rc p. case fsm p of None \<Rightarrow> None
                  | Some i \<Rightarrow> Some (JObject (nat (mtimeMs i)), rc(p \<mapsto> JObject (nat (mtimeMs i))))),
      requireResolve = (\<lambda>fsm p. case fsm p of None \<Rightarrow> None | Some i \<Rightarrow> Some p),
      resolveConfig = (\<lambda>v. sampleConfig (case v of JObject n \<Rightarrow> n | JString str \<Rightarrow> 0)),
      hash = (\<lambda>c. if settings c = 0 then ''h0'' else ''h1''),
      fastGlobSync =
        (\<lambda>fsm patterns. filter (\<lambda>f. fsm f \<noteq> None)
           (if ''/proj/src/**/*.html'' \<in> set patterns
            then [''/proj/src/a.html'', ''/proj/src/b.html''] else [])),
      isGlob = (\<lambda>p. CHR ''*'' \<in> set p),
      globParent = (\<lambda>p. ''/proj/src''),
      normalizePath = (\<lambda>p. p),
      pathResolve = (\<lambda>ps. case rev ps of [] \<Rightarrow> ''/proj''
                       | p # rest \<Rightarrow> if take 1 p = ''/'' then p else ''/proj/'' @ p),
      pathDirname = (\<lambda>p. rev (drop 1 (dropWhile (\<lambda>c. c \<noteq> CHR ''/'') (rev p)))),
      pathExtname = (\<lambda>p. CHR ''.'' # rev (takeWhile (\<lambda>c. c \<noteq> CHR ''.'') (rev p))),
      pathJoin = (\<lambda>d f. d @ ''/'' @ f),
      cwd = ''/proj'',
      pid = ''4242'',
      touchDir = ''/home/u/.tailwindcss/touch'',
      env_DEBUG = False,
      env_ROLLUP_WATCH = None,
      env_TAILWIND_MODE = Some ''watch'',
      env_NODE_ENV = None\<rparr>"

definition sampleState :: state where
  "sampleState =
     \<lparr>fs = [''/proj/tw.config'' \<mapsto> \<lparr>mtimeMs = 10, body = ''module.exports = {}''\<rparr>,
            ''/proj/theme.js'' \<mapsto> \<lparr>mtimeMs = 20, body = ''{}''\<rparr>,
            ''/proj/src/a.html'' \<mapsto> \<lparr>mtimeMs = 5, body = ''<p class=m-1>''\<rparr>],
      dirs = {''/proj'', ''/proj/src'', ''/home/u/.tailwindcss/touch''},
      now = 100,
      requireCache = Map.empty,
      trace = [],
      randomSource = (\<lambda>i. i),
      randomPos = 0,
      contexts = (\<lambda>c. \<lparr>ctx_tailwindConfig = sampleConfig 0, ctx_changedContent = [],
                        ctx_disposables = 0\<rparr>),
      nextContext = 0,
      contextMap = Map.empty,
      fileModifiedMaps = (\<lambda>c. Map.empty),
      configPathCache = lru_empty,
      candidateFilesCache = Map.empty,
      configPathCacheW = lru_empty,
      candidateFilesCacheW = Map.empty,
      configDependenciesCache = Map.empty,
      scannedContentCache = {},
      watchers = Map.empty,
      watcherObjects = (\<lambda>wid. \<lparr>w_context = 0, w_touchFile = [], w_configPath = None,
                               w_watched = [], w_closed = True\<rparr>),
      nextWatcher = 0,
      touchFiles = Map.empty,
      configPaths = Map.empty,
      pending = []\<rparr>"

text \<open>The stylesheet of the sample project, which imports \<^verbatim>\<open>/proj/base.css\<close>.\<close>

definition sampleResult :: postcssResult where
  "sampleResult =
     \<lparr>opts_from = Some ''/proj/app.css'',
      messages = [\<lparr>m_type = ''dependency'', m_file = Some ''/proj/base.css''\<rparr>,
                  \<lparr>m_type = ''warning'', m_file = None\<rparr>]\<rparr>"

section \<open>Notions used to state the properties\<close>

text \<open>The timestamps of the files \<open>ds\<close>, as \<^verbatim>\<open>newModified\<close> records them.\<close>

definition snapshot :: "(path \<rightharpoonup> fileinfo) \<Rightarrow> path list \<Rightarrow> (path \<rightharpoonup> int)" where
  "snapshot fsm ds = (\<lambda>f. if f \<in> set ds then map_option mtimeMs (fsm f) else None)"

text \<open>Some dependency counts as modified against the cached timestamps \<open>pm\<close>.\<close>

definition modifiedDeps :: "(path \<rightharpoonup> int) option \<Rightarrow> (path \<rightharpoonup> fileinfo) \<Rightarrow> path list \<Rightarrow> bool" where
  "modifiedDeps pm fsm deps = list_ex (\<lambda>d. isModified pm d (mtimeMs (the (fsm d)))) deps"

text \<open>
  The file \<open>f\<close> exists and is newer than the map \<open>fm\<close> records (a file the map does not
  have is newer than \<^verbatim>\<open>-Infinity\<close>).
\<close>

definition newerFile :: "(path \<rightharpoonup> fileinfo) \<Rightarrow> (path \<rightharpoonup> int) \<Rightarrow> path \<Rightarrow> bool" where
  "newerFile fsm fm f =
     (case fsm f of
        None \<Rightarrow> False
      | Some i \<Rightarrow> (case fm f of None \<Rightarrow> True | Some t \<Rightarrow> mtimeMs i > t))"

text \<open>The map \<open>fm\<close> with the timestamps of the newer ones among \<open>files\<close> written in.\<close>

definition updatedMap :: "(path \<rightharpoonup> fileinfo) \<Rightarrow> (path \<rightharpoonup> int) \<Rightarrow> path list \<Rightarrow> (path \<rightharpoonup> int)" where
  "updatedMap fsm fm files =
     (\<lambda>f. if f \<in> set files \<and> newerFile fsm fm f then map_option mtimeMs (fsm f) else fm f)"

text \<open>The files whose contents a trace reads, in order.\<close>

fun readsOf :: "event list \<Rightarrow> path list" where
  "readsOf [] = []"
| "readsOf (ReadFile f # es) = f # readsOf es"
| "readsOf (_ # es) = readsOf es"

text \<open>The record pushed for a file read from disk.\<close>

definition fileEntry :: "externs \<Rightarrow> (path \<rightharpoonup> fileinfo) \<Rightarrow> path \<Rightarrow> changed" where
  "fileEntry X fsm f =
     \<lparr>content = (case fsm f of None \<Rightarrow> [] | Some i \<Rightarrow> body i),
      extension = Some (drop 1 (pathExtname X f))\<rparr>"

text \<open>What \<^verbatim>\<open>touch\<close> leaves at a path: the file with the new timestamp, or a new empty file.\<close>

definition touched :: "fileinfo option \<Rightarrow> int \<Rightarrow> fileinfo" where
  "touched old time =
     (case old of None \<Rightarrow> \<lparr>mtimeMs = time, body = []\<rparr> | Some i \<Rightarrow> i\<lparr>mtimeMs := time\<rparr>)"

text \<open>The file exists, or it can be created (its directory exists).\<close>

definition touchable :: "externs \<Rightarrow> state \<Rightarrow> path \<Rightarrow> bool" where
  "touchable X s f = (fs s f \<noteq> None \<or> pathDirname X f \<in> dirs s)"

text \<open>The \<^verbatim>\<open>require.cache\<close> keys of the dependencies \<open>ds\<close>.\<close>

definition resolvedKeys :: "externs \<Rightarrow> (path \<rightharpoonup> fileinfo) \<Rightarrow> path list \<Rightarrow> path list" where
  "resolvedKeys X fsm ds = List.map_filter (requireResolve X fsm) ds"

text \<open>
  What the context \<open>c\<close> held before a request that led from \<open>s\<close> to \<open>s'\<close>: its
  \<open>changedContent\<close> in \<open>s\<close>, or nothing when the request created a context (the
  counter of contexts has moved).
\<close>

definition priorContent :: "state \<Rightarrow> state \<Rightarrow> nat \<Rightarrow> changed list" where
  "priorContent s s' c =
     (if nextContext s' = nextContext s then ctx_changedContent (contexts s c) else [])"

text \<open>
  A watcher of the sample project, armed for context 0, and the state it runs in: the
  state after a first watch-mode request for the sample stylesheet, with directives.
\<close>

definition sampleWatcher :: watcher where
  "sampleWatcher =
     \<lparr>w_context = 0, w_touchFile = ''/home/u/.tailwindcss/touch/touch-4242-0123456789AB'',
      w_configPath = Some ''/proj/tw.config'',
      w_watched = [''/proj/src/**/*.html'', ''/proj/theme.js''], w_closed = False\<rparr>"

definition sampleWatching :: state where
  "sampleWatching =
     sampleState
       \<lparr>fs := (fs sampleState)
          (''/home/u/.tailwindcss/touch/touch-4242-0123456789AB'' \<mapsto> \<lparr>mtimeMs = 50, body = []\<rparr>),
        requireCache := [''/proj/tw.config'' \<mapsto> JObject 10, ''/proj/theme.js'' \<mapsto> JObject 20],
        contextMap := [Some ''/proj/app.css'' \<mapsto>
                         (''h1'', collectContextDependencies [Some ''/proj/tw.config'']
                                    {''base''} sampleResult, 0)],
        candidateFilesCacheW := [0 \<mapsto> [''/proj/src/**/*.html'']],
        scannedContentCache := {0},
        configDependenciesCache := [0 \<mapsto> [''/proj/theme.js'']],
        touchFiles := [0 \<mapsto> ''/home/u/.tailwindcss/touch/touch-4242-0123456789AB''],
        watchers := [0 \<mapsto> 0],
        watcherObjects := (watcherObjects sampleState)(0 := sampleWatcher),
        nextWatcher := 1, nextContext := 1\<rparr>"

text \<open>
  The same state, had the first request for the sample stylesheet come without
  directives: the identity on the stylesheet's entry is the one of a directive-less
  request.
\<close>

definition sampleWatchingPlain :: state where
  "sampleWatchingPlain =
     sampleWatching
       \<lparr>contextMap := [Some ''/proj/app.css'' \<mapsto>
                         (''h1'', collectContextDependencies [Some ''/proj/tw.config'']
                                    {} sampleResult, 0)]\<rparr>"

section \<open>Properties\<close>

subsection \<open>The configuration cache\<close>

lemma lru_get_None: "lru_get k l = (None, l1) \<Longrightarrow> l1 = l"
  by (auto simp: lru_get_def split: option.splits)

lemma lru_get_set: "fst (lru_get k (lru_set k v l)) = Some v"
  by (auto simp: lru_get_def lru_set_def lru_put_def split: option.splits)

lemma lru_get_get: "lru_get k l = (Some v, l1) \<Longrightarrow> fst (lru_get k l1) = Some v"
  by (auto simp: lru_get_def lru_put_def split: option.splits if_splits)

lemma lru_get_again: "lru_get k l = (r, l1) \<Longrightarrow> \<exists>l2. lru_get k l1 = (r, l2)"
proof (cases r)
  case None
  assume g: "lru_get k l = (r, l1)"
  with None have "l1 = l" by (simp add: lru_get_None)
  with g show ?thesis by simp
next
  case (Some v)
  assume "lru_get k l = (r, l1)"
  with Some have "fst (lru_get k l1) = r" by (simp add: lru_get_get)
  then show ?thesis by (cases "lru_get k l1") simp
qed

lemma lru_get_set_ex: "\<exists>l2. lru_get k (lru_set k v l) = (Some v, l2)"
  using lru_get_set [of k v l] by (cases "lru_get k (lru_set k v l)") simp

subsection \<open>The loop over the dependencies\<close>

lemma statDeps_Inr:
  "statDeps ds pm b nm s = (Inr r, s') \<Longrightarrow> \<forall>d\<in>set ds. fs s d \<noteq> None"
proof (induction ds arbitrary: b nm s)
  case Nil
  then show ?case by simp
next
  case (Cons d ds)
  from Cons.prems obtain i where i: "fs s d = Some i"
    by (auto simp: statSync_def split: option.splits)
  from Cons.prems i have
    "statDeps ds pm (if isModified pm d (mtimeMs i) then True else b) (nm(d \<mapsto> mtimeMs i))
       (logEvent (Stat d) s) = (Inr r, s')"
    by (simp add: statSync_def)
  from Cons.IH [OF this] have "\<forall>x\<in>set ds. fs s x \<noteq> None"
    by (simp add: logEvent_def)
  with i show ?case by simp
qed

lemma statDeps_ok:
  "\<forall>d\<in>set ds. fs s d \<noteq> None \<Longrightarrow>
   statDeps ds pm b nm s =
     (Inr (b \<or> (\<exists>d\<in>set ds. isModified pm d (mtimeMs (the (fs s d)))),
           nm ++ snapshot (fs s) ds),
      s\<lparr>trace := trace s @ map Stat ds\<rparr>)"
proof (induction ds arbitrary: b nm s)
  case Nil
  then show ?case by (simp add: snapshot_def map_add_def)
next
  case (Cons d ds)
  then obtain i where i: "fs s d = Some i" by auto
  have rest: "\<forall>x\<in>set ds. fs (logEvent (Stat d) s) x \<noteq> None"
    using Cons.prems by (simp add: logEvent_def)
  have m: "nm(d \<mapsto> mtimeMs i) ++ snapshot (fs s) ds = nm ++ snapshot (fs s) (d # ds)"
    using i Cons.prems by (auto simp: fun_eq_iff snapshot_def map_add_def split: option.splits)
  have "statDeps (d # ds) pm b nm s =
      statDeps ds pm (if isModified pm d (mtimeMs i) then True else b) (nm(d \<mapsto> mtimeMs i))
        (logEvent (Stat d) s)"
    by (simp add: statSync_def i)
  also have "\<dots> =
      (Inr ((if isModified pm d (mtimeMs i) then True else b) \<or>
              (\<exists>x\<in>set ds. isModified pm x (mtimeMs (the (fs s x)))),
            nm(d \<mapsto> mtimeMs i) ++ snapshot (fs s) ds),
       s\<lparr>trace := trace s @ map Stat (d # ds)\<rparr>)"
    by (simp only: Cons.IH [OF rest])
       (auto simp: logEvent_def fun_eq_iff map_add_def split: option.splits)
  finally show ?case
    using i by (auto simp only: m list.set option.sel bex_simps insert_iff split: if_splits)
qed

lemma isModified_mono:
  "\<not> isModified pm d t \<Longrightarrow> t' \<le> t \<Longrightarrow> \<not> isModified pm d t'"
  by (auto simp: isModified_def split: option.splits)

subsection \<open>The loader, by cases\<close>

lemma getTailwindConfig_path:
  assumes p: "resolveConfigPath X (fs s) cop = Some p"
    and deps: "getModuleDependencies X (fs s) p = Some deps"
    and get: "lru_get p (configPathCache s) = (prev, l1)"
    and ex: "\<forall>d\<in>set deps. fs s d \<noteq> None"
  shows "getTailwindConfig X cop s =
     (let s2 = s\<lparr>configPathCache := l1, trace := trace s @ ModuleDependencies p # map Stat deps\<rparr>
      in if \<not> modifiedDeps (map_option (\<lambda>(c, h, d, m). m) prev) (fs s) deps then
           (Inr (map_option (\<lambda>(c, h, d, m). c) prev, Some p,
                 map_option (\<lambda>(c, h, d, m). h) prev,
                 map_option (\<lambda>(c, h, d, m). d) prev), s2)
         else
           (case require X p (s2\<lparr>requireCache := requireCache s2 |` (- set deps)\<rparr>) of
              (Inl e, s3) \<Rightarrow> (Inl e, s3)
            | (Inr exports, s3) \<Rightarrow>
                (Inr (Some (resolveConfig X exports), Some p,
                      Some (hash X (resolveConfig X exports)), Some deps),
                 s3\<lparr>configPathCache :=
                      lru_set p (resolveConfig X exports, hash X (resolveConfig X exports), deps,
                                 snapshot (fs s) deps)
                        (configPathCache s3)\<rparr>)))"
proof -
  have ex': "\<forall>d\<in>set deps.
      fs (s\<lparr>configPathCache := l1, trace := trace s @ [ModuleDependencies p]\<rparr>) d \<noteq> None"
    using ex by simp
  show ?thesis
    unfolding getTailwindConfig_def
    by (auto simp: p deps get statDeps_ok [OF ex'] Let_def logEvent_def modifiedDeps_def
                   list_ex_iff
             split: prod.splits sum.splits)
qed

lemma getTailwindConfig_Inr_deps:
  assumes "getTailwindConfig X cop s = (Inr r, s1)"
    and "resolveConfigPath X (fs s) cop = Some p"
  shows "\<exists>deps. getModuleDependencies X (fs s) p = Some deps \<and> (\<forall>d\<in>set deps. fs s d \<noteq> None)"
  using assms unfolding getTailwindConfig_def
  by (auto simp: Let_def logEvent_def split: option.splits prod.splits sum.splits if_splits
           dest!: statDeps_Inr)

lemma getTailwindConfigW_path:
  assumes p: "resolveConfigPath X (fs s) cop = Some p"
    and get: "lru_get p (configPathCacheW s) = (prev, l1)"
    and ex: "fs s p = Some i"
  shows "getTailwindConfigW X cop s =
     (let s1 = s\<lparr>configPathCacheW := l1, trace := trace s @ [Stat p]\<rparr>
      in if (case prev of None \<Rightarrow> False | Some (c, prevModified, h) \<Rightarrow> mtimeMs i \<le> prevModified) then
           (Inr (map_option (\<lambda>(c, m, h). c) prev, Some p,
                 map_option (\<lambda>(c, m, h). h) prev, [Some p]), s1)
         else
           (case require X p (s1\<lparr>requireCache := (requireCache s1)(p := None)\<rparr>) of
              (Inl e, s2) \<Rightarrow> (Inl e, s2)
            | (Inr exports, s2) \<Rightarrow>
                (Inr (Some (resolveConfig X exports), Some p,
                      Some (hash X (resolveConfig X exports)), [Some p]),
                 s2\<lparr>configPathCacheW :=
                      lru_set p (resolveConfig X exports, mtimeMs i, hash X (resolveConfig X exports))
                        (configPathCacheW s2)\<rparr>)))"
  unfolding getTailwindConfigW_def
  by (auto simp: p get ex statSync_def Let_def logEvent_def split: prod.splits sum.splits)

lemma getTailwindConfigW_Inr_file:
  assumes "getTailwindConfigW X cop s = (Inr r, s1)"
    and "resolveConfigPath X (fs s) cop = Some p"
  shows "\<exists>i. fs s p = Some i"
  using assms unfolding getTailwindConfigW_def
  by (auto simp: Let_def statSync_def split: option.splits prod.splits sum.splits if_splits)

lemma require_trace:
  "require X p s = (r, s') \<Longrightarrow> \<exists>tl. trace s' = trace s @ tl \<and> set tl \<subseteq> {LoadModule p}"
  by (auto simp: require_def logEvent_def split: option.splits)

lemma getTailwindConfig_again:
  assumes first: "getTailwindConfig X cop s = (Inr r, s1)"
    and p: "resolveConfigPath X (fs s) cop = Some p"
    and p': "resolveConfigPath X (fs s') cop = Some p"
    and cache: "configPathCache s' = configPathCache s1"
    and deps: "getModuleDependencies X (fs s) p = Some deps"
    and deps': "getModuleDependencies X (fs s') p = Some deps'"
    and sub: "set deps' \<subseteq> set deps"
    and times: "\<forall>d\<in>set deps'. \<exists>i i'. fs s d = Some i \<and> fs s' d = Some i' \<and> mtimeMs i' \<le> mtimeMs i"
  shows "\<exists>l2. getTailwindConfig X cop s' =
           (Inr r, s'\<lparr>configPathCache := l2,
                      trace := trace s' @ ModuleDependencies p # map Stat deps'\<rparr>)"
proof -
  obtain prev l1 where get: "lru_get p (configPathCache s) = (prev, l1)"
    by (cases "lru_get p (configPathCache s)")
  have ex: "\<forall>d\<in>set deps. fs s d \<noteq> None"
    using getTailwindConfig_Inr_deps [OF first p] deps by auto
  have ex': "\<forall>d\<in>set deps'. fs s' d \<noteq> None"
    using times by auto
  let ?pm = "map_option (\<lambda>(c, h, d, m). m) prev"
  note P = getTailwindConfig_path [OF p deps get ex]
  show ?thesis
  proof (cases "modifiedDeps ?pm (fs s) deps")
    case False
    with first P have r: "r = (map_option (\<lambda>(c, h, d, m). c) prev, Some p,
                 map_option (\<lambda>(c, h, d, m). h) prev,
                 map_option (\<lambda>(c, h, d, m). d) prev)"
      and s1: "configPathCache s1 = l1"
      by (auto simp: Let_def)
    from get s1 cache obtain l2 where get': "lru_get p (configPathCache s') = (prev, l2)"
      using lru_get_again [of p "configPathCache s" prev l1] by auto
    have "\<not> modifiedDeps ?pm (fs s') deps'"
      unfolding modifiedDeps_def list_ex_iff
    proof
      assume "\<exists>d\<in>set deps'. isModified ?pm d (mtimeMs (the (fs s' d)))"
      then obtain d where d: "d \<in> set deps'" "isModified ?pm d (mtimeMs (the (fs s' d)))" by auto
      from d(1) times obtain i i' where
        i: "fs s d = Some i" "fs s' d = Some i'" "mtimeMs i' \<le> mtimeMs i"
        by blast
      from d(1) sub have "d \<in> set deps" by auto
      with False i(1) have "\<not> isModified ?pm d (mtimeMs i)"
        by (auto simp: modifiedDeps_def list_ex_iff)
      from isModified_mono [OF this i(3)] d(2) i(2) show False by simp
    qed
    with getTailwindConfig_path [OF p' deps' get' ex'] r show ?thesis
      by (auto simp: Let_def)
  next
    case True
    let ?rs = "require X p
                 (s\<lparr>configPathCache := l1, trace := trace s @ ModuleDependencies p # map Stat deps,
                    requireCache := requireCache s |` (- set deps)\<rparr>)"
    from True first P obtain exports s3 where
      req: "?rs = (Inr exports, s3)"
      by (cases ?rs; cases "fst ?rs") (auto simp: Let_def)
    let ?E = "(resolveConfig X exports, hash X (resolveConfig X exports), deps, snapshot (fs s) deps)"
    from True first P req have r: "r = (Some (resolveConfig X exports), Some p,
                      Some (hash X (resolveConfig X exports)), Some deps)"
      and s1: "configPathCache s1 = lru_set p ?E (configPathCache s3)"
      by (auto simp: Let_def)
    from s1 cache obtain l2 where get': "lru_get p (configPathCache s') = (Some ?E, l2)"
      using lru_get_set_ex [of p ?E "configPathCache s3"] by auto
    have "\<not> modifiedDeps (Some (snapshot (fs s) deps)) (fs s') deps'"
      unfolding modifiedDeps_def list_ex_iff
    proof
      assume "\<exists>d\<in>set deps'. isModified (Some (snapshot (fs s) deps)) d (mtimeMs (the (fs s' d)))"
      then obtain d where d: "d \<in> set deps'"
          "isModified (Some (snapshot (fs s) deps)) d (mtimeMs (the (fs s' d)))" by auto
      from d(1) times obtain i i' where
        i: "fs s d = Some i" "fs s' d = Some i'" "mtimeMs i' \<le> mtimeMs i"
        by blast
      with d sub show False by (auto simp: isModified_def snapshot_def)
    qed
    with getTailwindConfig_path [OF p' deps' get' ex'] r show ?thesis
      by (auto simp: Let_def)
  qed
qed

lemma getTailwindConfigW_again:
  assumes first: "getTailwindConfigW X cop s = (Inr r, s1)"
    and p: "resolveConfigPath X (fs s) cop = Some p"
    and p': "resolveConfigPath X (fs s') cop = Some p"
    and cache: "configPathCacheW s' = configPathCacheW s1"
    and i: "fs s p = Some i" and i': "fs s' p = Some i'" and le: "mtimeMs i' \<le> mtimeMs i"
  shows "\<exists>l2. getTailwindConfigW X cop s' =
           (Inr r, s'\<lparr>configPathCacheW := l2, trace := trace s' @ [Stat p]\<rparr>)"
proof -
  obtain prev l1 where get: "lru_get p (configPathCacheW s) = (prev, l1)"
    by (cases "lru_get p (configPathCacheW s)")
  note P = getTailwindConfigW_path [OF p get i]
  let ?fast = "case prev of None \<Rightarrow> False | Some (c, prevModified, h) \<Rightarrow> mtimeMs i \<le> prevModified"
  show ?thesis
  proof (cases ?fast)
    case True
    with first P have r: "r = (map_option (\<lambda>(c, m, h). c) prev, Some p,
                 map_option (\<lambda>(c, m, h). h) prev, [Some p])"
      and s1: "configPathCacheW s1 = l1"
      by (auto simp: Let_def)
    from get s1 cache obtain l2 where get': "lru_get p (configPathCacheW s') = (prev, l2)"
      using lru_get_again [of p "configPathCacheW s" prev l1] by auto
    from True le
    have "case prev of None \<Rightarrow> False | Some (c, prevModified, h) \<Rightarrow> mtimeMs i' \<le> prevModified"
      by (auto split: option.splits)
    with getTailwindConfigW_path [OF p' get' i'] r show ?thesis
      by (auto simp: Let_def)
  next
    case False
    let ?rs = "require X p
                 (s\<lparr>configPathCacheW := l1, trace := trace s @ [Stat p],
                    requireCache := (requireCache s)(p := None)\<rparr>)"
    from False first P obtain exports s3 where
      req: "?rs = (Inr exports, s3)"
      by (cases ?rs; cases "fst ?rs") (auto simp: Let_def)
    let ?E = "(resolveConfig X exports, mtimeMs i, hash X (resolveConfig X exports))"
    from False first P req have r: "r = (Some (resolveConfig X exports), Some p,
                      Some (hash X (resolveConfig X exports)), [Some p])"
      and s1: "configPathCacheW s1 = lru_set p ?E (configPathCacheW s3)"
      by (auto simp: Let_def)
    from s1 cache obtain l2 where get': "lru_get p (configPathCacheW s') = (Some ?E, l2)"
      using lru_get_set_ex [of p ?E "configPathCacheW s3"] by auto
    with getTailwindConfigW_path [OF p' get' i'] r le show ?thesis
      by (auto simp: Let_def)
  qed
qed

lemmas sample_defs =
  sampleX_def sampleState_def sampleConfig_def lru_get_def lru_empty_def lru_set_def lru_put_def
  maxSize_def statSync_def readFileSync_def logEvent_def isModified_def require_def Let_def
  inlineValue_def

section \<open>The configuration loader\<close>

text \<open>
  C3 (as stated, it fails in build mode). The build-mode loader calls
  \<^verbatim>\<open>getModuleDependencies(userConfigPath)\<close> on every load, at line 50, before it looks
  at a timestamp: the helper reads the configuration module and the files it requires
  to find what they depend on. In the sample project a second load with the disk
  untouched returns the result of the first without loading the module, and its trace
  holds the query for the dependencies of \<^verbatim>\<open>/proj/tw.config\<close> a second time.
\<close>

theorem getTailwindConfig_rereads_counterexample:
  "fst (getTailwindConfig sampleX (ArgString ''/proj/tw.config'')
          (snd (getTailwindConfig sampleX (ArgString ''/proj/tw.config'') sampleState))) =
   fst (getTailwindConfig sampleX (ArgString ''/proj/tw.config'') sampleState) \<and>
   fs (snd (getTailwindConfig sampleX (ArgString ''/proj/tw.config'') sampleState)) =
     fs sampleState \<and>
   trace (snd (getTailwindConfig sampleX (ArgString ''/proj/tw.config'') sampleState)) =
     [ModuleDependencies ''/proj/tw.config'', Stat ''/proj/tw.config'', Stat ''/proj/theme.js'',
      LoadModule ''/proj/tw.config''] \<and>
   trace (snd (getTailwindConfig sampleX (ArgString ''/proj/tw.config'')
                 (snd (getTailwindConfig sampleX (ArgString ''/proj/tw.config'') sampleState)))) =
     [ModuleDependencies ''/proj/tw.config'', Stat ''/proj/tw.config'', Stat ''/proj/theme.js'',
      LoadModule ''/proj/tw.config''] @
     [ModuleDependencies ''/proj/tw.config'', Stat ''/proj/tw.config'', Stat ''/proj/theme.js'']"
  by (simp add: getTailwindConfig_def sample_defs)

text \<open>
  C3, amended. Two successive loads of a configuration file between which no
  dependency's timestamp has increased: the second load returns the very result of the
  first (the same configuration, path, hash and dependencies) and does not load the
  module again: \<^verbatim>\<open>require.cache\<close> and the file system are left as they were. What it
  does to the disk is, in watch mode, one stat of the configuration file; in build mode,
  the query for the dependencies of the configuration module, which reads the
  configuration file again, and one stat of each dependency. Here \<open>s\<close> is the state at
  the first load, \<open>s1\<close> the state it leaves, and \<open>s'\<close> any state at the second load that
  has the configuration cache of \<open>s1\<close>; in build mode \<open>deps\<close> are the dependencies at the
  first load and \<open>deps'\<close>, among them, those at the second.
\<close>

theorem getTailwindConfig_unchanged_is_cached:
  "(getTailwindConfig X configOrPath s = (Inr r, s1) \<and>
    resolveConfigPath X (fs s) configOrPath = Some p \<and>
    resolveConfigPath X (fs s') configOrPath = Some p \<and>
    configPathCache s' = configPathCache s1 \<and>
    getModuleDependencies X (fs s) p = Some deps \<and>
    getModuleDependencies X (fs s') p = Some deps' \<and> set deps' \<subseteq> set deps \<and>
    (\<forall>d\<in>set deps'. \<exists>i i'. fs s d = Some i \<and> fs s' d = Some i' \<and> mtimeMs i' \<le> mtimeMs i)
    \<longrightarrow> (\<exists>l2. getTailwindConfig X configOrPath s' =
              (Inr r, s'\<lparr>configPathCache := l2,
                         trace := trace s' @ ModuleDependencies p # map Stat deps'\<rparr>)))
   \<and>
   (getTailwindConfigW X configOrPath t = (Inr rw, t1) \<and>
    resolveConfigPath X (fs t) configOrPath = Some p \<and>
    resolveConfigPath X (fs t') configOrPath = Some p \<and>
    configPathCacheW t' = configPathCacheW t1 \<and>
    (\<exists>i i'. fs t p = Some i \<and> fs t' p = Some i' \<and> mtimeMs i' \<le> mtimeMs i)
    \<longrightarrow> (\<exists>l2. getTailwindConfigW X configOrPath t' =
              (Inr rw, t'\<lparr>configPathCacheW := l2, trace := trace t' @ [Stat p]\<rparr>)))"
proof (intro conjI impI)
  assume "getTailwindConfig X configOrPath s = (Inr r, s1) \<and>
    resolveConfigPath X (fs s) configOrPath = Some p \<and>
    resolveConfigPath X (fs s') configOrPath = Some p \<and>
    configPathCache s' = configPathCache s1 \<and>
    getModuleDependencies X (fs s) p = Some deps \<and>
    getModuleDependencies X (fs s') p = Some deps' \<and> set deps' \<subseteq> set deps \<and>
    (\<forall>d\<in>set deps'. \<exists>i i'. fs s d = Some i \<and> fs s' d = Some i' \<and> mtimeMs i' \<le> mtimeMs i)"
  then show "\<exists>l2. getTailwindConfig X configOrPath s' =
              (Inr r, s'\<lparr>configPathCache := l2,
                         trace := trace s' @ ModuleDependencies p # map Stat deps'\<rparr>)"
    using getTailwindConfig_again [of X configOrPath s r s1 p s' deps deps'] by blast
next
  assume a: "getTailwindConfigW X configOrPath t = (Inr rw, t1) \<and>
    resolveConfigPath X (fs t) configOrPath = Some p \<and>
    resolveConfigPath X (fs t') configOrPath = Some p \<and>
    configPathCacheW t' = configPathCacheW t1 \<and>
    (\<exists>i i'. fs t p = Some i \<and> fs t' p = Some i' \<and> mtimeMs i' \<le> mtimeMs i)"
  then obtain i i' where "fs t p = Some i" "fs t' p = Some i'" "mtimeMs i' \<le> mtimeMs i"
    by blast
  with a show "\<exists>l2. getTailwindConfigW X configOrPath t' =
              (Inr rw, t'\<lparr>configPathCacheW := l2, trace := trace t' @ [Stat p]\<rparr>)"
    using getTailwindConfigW_again [of X configOrPath t rw t1 p t' i i'] by blast
qed

theorem getTailwindConfig_unchanged_is_cached_witness:
  "fst (getTailwindConfig sampleX (ArgString ''/proj/tw.config'')
          (snd (getTailwindConfig sampleX (ArgString ''/proj/tw.config'') sampleState))) =
     Inr (Some (sampleConfig 10), Some ''/proj/tw.config'', Some ''h1'',
          Some [''/proj/tw.config'', ''/proj/theme.js'']) \<and>
   fst (getTailwindConfigW sampleX (ArgString ''/proj/tw.config'')
          (snd (getTailwindConfigW sampleX (ArgString ''/proj/tw.config'') sampleState))) =
     Inr (Some (sampleConfig 10), Some ''/proj/tw.config'', Some ''h1'',
          [Some ''/proj/tw.config''])"
proof -
  let ?A = "ArgString ''/proj/tw.config''"
  let ?p = "''/proj/tw.config''"
  let ?deps = "[''/proj/tw.config'', ''/proj/theme.js'']"
  let ?r = "(Some (sampleConfig 10), Some ?p, Some ''h1'', Some ?deps)"
  let ?rw = "(Some (sampleConfig 10), Some ?p, Some ''h1'', [Some ?p])"
  let ?s1 = "snd (getTailwindConfig sampleX ?A sampleState)"
  let ?t1 = "snd (getTailwindConfigW sampleX ?A sampleState)"
  have b: "getTailwindConfig sampleX ?A sampleState = (Inr ?r, ?s1) \<and>
    resolveConfigPath sampleX (fs sampleState) ?A = Some ?p \<and>
    resolveConfigPath sampleX (fs ?s1) ?A = Some ?p \<and>
    configPathCache ?s1 = configPathCache ?s1 \<and>
    getModuleDependencies sampleX (fs sampleState) ?p = Some ?deps \<and>
    getModuleDependencies sampleX (fs ?s1) ?p = Some ?deps \<and> set ?deps \<subseteq> set ?deps \<and>
    (\<forall>d\<in>set ?deps. \<exists>i i'. fs sampleState d = Some i \<and> fs ?s1 d = Some i' \<and> mtimeMs i' \<le> mtimeMs i)"
    by (simp add: prod_eq_iff getTailwindConfig_def sample_defs)
  have w: "getTailwindConfigW sampleX ?A sampleState = (Inr ?rw, ?t1) \<and>
    resolveConfigPath sampleX (fs sampleState) ?A = Some ?p \<and>
    resolveConfigPath sampleX (fs ?t1) ?A = Some ?p \<and>
    configPathCacheW ?t1 = configPathCacheW ?t1 \<and>
    (\<exists>i i'. fs sampleState ?p = Some i \<and> fs ?t1 ?p = Some i' \<and> mtimeMs i' \<le> mtimeMs i)"
    by (simp add: prod_eq_iff getTailwindConfigW_def sample_defs)
  from getTailwindConfig_unchanged_is_cached
         [of sampleX ?A sampleState ?r ?s1 ?p ?s1 ?deps ?deps sampleState ?rw ?t1 ?t1] b w
  obtain l2 l2' where
    "getTailwindConfig sampleX ?A ?s1 =
       (Inr ?r, ?s1\<lparr>configPathCache := l2,
                    trace := trace ?s1 @ ModuleDependencies ?p # map Stat ?deps\<rparr>)"
    "getTailwindConfigW sampleX ?A ?t1 =
       (Inr ?rw, ?t1\<lparr>configPathCacheW := l2', trace := trace ?t1 @ [Stat ?p]\<rparr>)"
    by blast
  then show ?thesis by simp
qed

text \<open>
  C4 (as stated, it fails in watch mode). The watch-mode loader never asks for the
  dependencies of the configuration module: in the sample project the module requires
  \<^verbatim>\<open>/proj/theme.js\<close>, and the loader returns the configuration file alone as the
  dependencies, without a stat of \<^verbatim>\<open>/proj/theme.js\<close>.
\<close>

theorem getTailwindConfigW_closure_counterexample:
  "getModuleDependencies sampleX (fs sampleState) ''/proj/tw.config'' =
     Some [''/proj/tw.config'', ''/proj/theme.js''] \<and>
   fst (getTailwindConfigW sampleX (ArgString ''/proj/tw.config'') sampleState) =
     Inr (Some (sampleConfig 10), Some ''/proj/tw.config'', Some ''h1'',
          [Some ''/proj/tw.config'']) \<and>
   trace (snd (getTailwindConfigW sampleX (ArgString ''/proj/tw.config'') sampleState)) =
     [Stat ''/proj/tw.config'', LoadModule ''/proj/tw.config'']"
  by (simp add: getTailwindConfigW_def sample_defs)

text \<open>
  C4, amended. For a configuration given as a file path \<open>p\<close>: in build mode a load that
  returns has asked for the dependency closure of \<open>p\<close> and read the timestamp of every
  file in it, in order; when a dependency counts as modified against the cached
  timestamps (or nothing is cached) the configuration is loaded anew and that closure
  is the dependency set returned, otherwise the dependency set returned is the one
  cached at the last load. In watch mode a load that returns has read the timestamp of
  the configuration file only, and the dependency set returned is \<open>[p]\<close>.
\<close>

theorem getTailwindConfig_dependencies:
  "(getTailwindConfig X configOrPath s = (Inr (c, up, h, ds), s1) \<and>
    resolveConfigPath X (fs s) configOrPath = Some p
    \<longrightarrow> (\<exists>deps tl.
           getModuleDependencies X (fs s) p = Some deps \<and>
           trace s1 = trace s @ ModuleDependencies p # map Stat deps @ tl \<and>
           set tl \<subseteq> {LoadModule p} \<and>
           ds = (if modifiedDeps (map_option (\<lambda>(c, h, d, m). m)
                                   (fst (lru_get p (configPathCache s)))) (fs s) deps
                 then Some deps
                 else map_option (\<lambda>(c, h, d, m). d) (fst (lru_get p (configPathCache s))))))
   \<and>
   (getTailwindConfigW X configOrPath t = (Inr (cw, upw, hw, dsw), t1) \<and>
    resolveConfigPath X (fs t) configOrPath = Some p
    \<longrightarrow> dsw = [Some p] \<and>
        (\<exists>tl. trace t1 = trace t @ Stat p # tl \<and> set tl \<subseteq> {LoadModule p}))"
proof (rule conjI; rule impI)
  assume a: "getTailwindConfig X configOrPath s = (Inr (c, up, h, ds), s1) \<and>
    resolveConfigPath X (fs s) configOrPath = Some p"
  then obtain deps where deps: "getModuleDependencies X (fs s) p = Some deps"
    and ex: "\<forall>d\<in>set deps. fs s d \<noteq> None"
    using getTailwindConfig_Inr_deps [of X configOrPath s "(c, up, h, ds)" s1 p] by blast
  obtain prev l1 where get: "lru_get p (configPathCache s) = (prev, l1)"
    by (cases "lru_get p (configPathCache s)")
  from a have p: "resolveConfigPath X (fs s) configOrPath = Some p" by simp
  note P = getTailwindConfig_path [OF p deps get ex]
  let ?pm = "map_option (\<lambda>(c, h, d, m). m) prev"
  have "\<exists>tl. trace s1 = trace s @ ModuleDependencies p # map Stat deps @ tl \<and>
           set tl \<subseteq> {LoadModule p} \<and>
           ds = (if modifiedDeps ?pm (fs s) deps then Some deps
                 else map_option (\<lambda>(c, h, d, m). d) prev)"
  proof (cases "modifiedDeps ?pm (fs s) deps")
    case False
    with a P show ?thesis by (auto simp: Let_def)
  next
    case True
    let ?s2 = "s\<lparr>configPathCache := l1, trace := trace s @ ModuleDependencies p # map Stat deps,
                  requireCache := requireCache s |` (- set deps)\<rparr>"
    from True a P obtain exports s3 where req: "require X p ?s2 = (Inr exports, s3)"
      by (cases "require X p ?s2"; cases "fst (require X p ?s2)") (auto simp: Let_def)
    from require_trace [OF req] obtain tl where
      tl: "trace s3 = trace ?s2 @ tl" "set tl \<subseteq> {LoadModule p}" by blast
    from True a P req have "ds = Some deps" "trace s1 = trace s3" by (auto simp: Let_def)
    with tl True show ?thesis by simp
  qed
  with deps get show "\<exists>deps tl.
           getModuleDependencies X (fs s) p = Some deps \<and>
           trace s1 = trace s @ ModuleDependencies p # map Stat deps @ tl \<and>
           set tl \<subseteq> {LoadModule p} \<and>
           ds = (if modifiedDeps (map_option (\<lambda>(c, h, d, m). m)
                                   (fst (lru_get p (configPathCache s)))) (fs s) deps
                 then Some deps
                 else map_option (\<lambda>(c, h, d, m). d) (fst (lru_get p (configPathCache s))))"
    by auto
next
  assume a: "getTailwindConfigW X configOrPath t = (Inr (cw, upw, hw, dsw), t1) \<and>
    resolveConfigPath X (fs t) configOrPath = Some p"
  then obtain i where i: "fs t p = Some i"
    using getTailwindConfigW_Inr_file [of X configOrPath t "(cw, upw, hw, dsw)" t1 p] by blast
  obtain prev l1 where get: "lru_get p (configPathCacheW t) = (prev, l1)"
    by (cases "lru_get p (configPathCacheW t)")
  from a have p: "resolveConfigPath X (fs t) configOrPath = Some p" by simp
  note P = getTailwindConfigW_path [OF p get i]
  let ?fast = "case prev of None \<Rightarrow> False | Some (c, prevModified, h) \<Rightarrow> mtimeMs i \<le> prevModified"
  show "dsw = [Some p] \<and> (\<exists>tl. trace t1 = trace t @ Stat p # tl \<and> set tl \<subseteq> {LoadModule p})"
  proof (cases ?fast)
    case True
    with a P show ?thesis by (auto simp: Let_def)
  next
    case False
    let ?t2 = "t\<lparr>configPathCacheW := l1, trace := trace t @ [Stat p],
                  requireCache := (requireCache t)(p := None)\<rparr>"
    from False a P obtain exports t3 where req: "require X p ?t2 = (Inr exports, t3)"
      by (cases "require X p ?t2"; cases "fst (require X p ?t2)") (auto simp: Let_def)
    from require_trace [OF req] obtain tl where
      tl: "trace t3 = trace ?t2 @ tl" "set tl \<subseteq> {LoadModule p}" by blast
    from False a P req have "dsw = [Some p]" "trace t1 = trace t3" by (auto simp: Let_def)
    with tl show ?thesis by simp
  qed
qed

theorem getTailwindConfig_dependencies_witness:
  "trace (snd (getTailwindConfig sampleX (ArgString ''/proj/tw.config'') sampleState)) =
     [ModuleDependencies ''/proj/tw.config'', Stat ''/proj/tw.config'', Stat ''/proj/theme.js'',
      LoadModule ''/proj/tw.config''] \<and>
   (\<exists>tl. trace (snd (getTailwindConfigW sampleX (ArgString ''/proj/tw.config'') sampleState)) =
      Stat ''/proj/tw.config'' # tl \<and> set tl \<subseteq> {LoadModule ''/proj/tw.config''})"
proof -
  let ?A = "ArgString ''/proj/tw.config''"
  let ?p = "''/proj/tw.config''"
  let ?deps = "[''/proj/tw.config'', ''/proj/theme.js'']"
  let ?s1 = "snd (getTailwindConfig sampleX ?A sampleState)"
  let ?t1 = "snd (getTailwindConfigW sampleX ?A sampleState)"
  have b: "getTailwindConfig sampleX ?A sampleState =
             (Inr (Some (sampleConfig 10), Some ?p, Some ''h1'', Some ?deps), ?s1) \<and>
           resolveConfigPath sampleX (fs sampleState) ?A = Some ?p"
    by (simp add: prod_eq_iff getTailwindConfig_def sample_defs)
  have w: "getTailwindConfigW sampleX ?A sampleState =
             (Inr (Some (sampleConfig 10), Some ?p, Some ''h1'', [Some ?p]), ?t1) \<and>
           resolveConfigPath sampleX (fs sampleState) ?A = Some ?p"
    by (simp add: prod_eq_iff getTailwindConfigW_def sample_defs)
  have tr: "trace ?s1 = [ModuleDependencies ?p, Stat ?p, Stat ''/proj/theme.js'', LoadModule ?p]"
    by (simp add: getTailwindConfig_def sample_defs)
  from getTailwindConfig_dependencies
         [of sampleX ?A sampleState "Some (sampleConfig 10)" "Some ?p" "Some ''h1''" "Some ?deps"
             ?s1 ?p sampleState "Some (sampleConfig 10)" "Some ?p" "Some ''h1''" "[Some ?p]" ?t1]
       b w
  have "\<exists>tl. trace ?t1 = trace sampleState @ Stat ?p # tl \<and> set tl \<subseteq> {LoadModule ?p}"
    by blast
  with tr show ?thesis by (simp add: sampleState_def)
qed

text \<open>
  C5. An inline configuration (\<^verbatim>\<open>resolveConfigPath\<close> gives null) is resolved afresh on
  every call, with a null path and the hash of the resolved value, and the state
  (every cache included) is left as it was. The dependencies are empty in build mode;
  in watch mode they are the one-element list \<^verbatim>\<open>[null]\<close>.
\<close>

theorem getTailwindConfig_inline:
  "resolveConfigPath X (fs s) configOrPath = None \<and> inlineValue configOrPath = Inr v
   \<longrightarrow> getTailwindConfig X configOrPath s =
         (Inr (Some (resolveConfig X v), None, Some (hash X (resolveConfig X v)), Some []), s) \<and>
       getTailwindConfigW X configOrPath s =
         (Inr (Some (resolveConfig X v), None, Some (hash X (resolveConfig X v)), [None]), s)"
  by (simp add: getTailwindConfig_def getTailwindConfigW_def Let_def)

theorem getTailwindConfig_inline_witness:
  "getTailwindConfig sampleX (ArgObject 7 None) sampleState =
     (Inr (Some (sampleConfig 7), None, Some ''h1'', Some []), sampleState) \<and>
   getTailwindConfigW sampleX (ArgObject 7 None) sampleState =
     (Inr (Some (sampleConfig 7), None, Some ''h1'', [None]), sampleState)"
proof -
  have "resolveConfigPath sampleX (fs sampleState) (ArgObject 7 None) = None \<and>
        inlineValue (ArgObject 7 None) = Inr (JObject 7)"
    by (simp add: sampleX_def inlineValue_def)
  with getTailwindConfig_inline [of sampleX sampleState "ArgObject 7 None" "JObject 7"]
  show ?thesis by (simp add: sampleX_def sampleConfig_def)
qed

section \<open>The build-mode scan\<close>

lemma set_foldl_setAdd: "set (foldl (\<lambda>a f. setAdd f a) acc xs) = set acc \<union> set xs"
  by (induction xs arbitrary: acc) (auto simp: setAdd_def)

lemma distinct_foldl_setAdd: "distinct acc \<Longrightarrow> distinct (foldl (\<lambda>a f. setAdd f a) acc xs)"
  by (induction xs arbitrary: acc) (auto simp: setAdd_def)

lemma foldl_setAdd_skip:
  "f \<in> set acc \<Longrightarrow>
   foldl (\<lambda>a f. setAdd f a) acc (filter (\<lambda>g. g \<noteq> f \<and> P g) xs) =
   foldl (\<lambda>a f. setAdd f a) acc (filter P xs)"
proof (induction xs arbitrary: acc)
  case Nil
  then show ?case by simp
next
  case (Cons x xs)
  show ?case
  proof (cases "x = f")
    case True
    with Cons.prems have "setAdd x acc = acc" by (simp add: setAdd_def)
    with True Cons.IH [OF Cons.prems] show ?thesis by simp
  next
    case False
    from Cons.prems have "f \<in> set (setAdd x acc)" by (simp add: setAdd_def)
    from Cons.IH [OF this] Cons.IH [OF Cons.prems] False show ?thesis by simp
  qed
qed

lemma foldl_setAdd_distinct:
  "distinct xs \<Longrightarrow> set xs \<inter> set acc = {} \<Longrightarrow> foldl (\<lambda>a f. setAdd f a) acc xs = acc @ xs"
  by (induction xs arbitrary: acc) (auto simp: setAdd_def)

lemma newerFile_upd_other:
  "g \<noteq> f \<Longrightarrow> newerFile fsm (fm(f \<mapsto> t)) g = newerFile fsm fm g"
  by (simp add: newerFile_def split: option.splits)

lemma newerFile_upd_same:
  "fsm f = Some i \<Longrightarrow> \<not> newerFile fsm (fm(f \<mapsto> mtimeMs i)) f"
  by (simp add: newerFile_def)

lemma filter_newer_upd:
  "fsm f = Some i \<Longrightarrow>
   filter (newerFile fsm (fm(f \<mapsto> mtimeMs i))) xs = filter (\<lambda>g. g \<noteq> f \<and> newerFile fsm fm g) xs"
proof (rule filter_cong)
  fix x
  assume i: "fsm f = Some i"
  show "newerFile fsm (fm(f \<mapsto> mtimeMs i)) x = (x \<noteq> f \<and> newerFile fsm fm x)"
    using newerFile_upd_same [of fsm f i fm] newerFile_upd_other [of x f fsm fm "mtimeMs i"] i
    by (cases "x = f") simp_all
qed simp

lemma updatedMap_step_newer:
  "fsm f = Some i \<Longrightarrow> newerFile fsm fm f \<Longrightarrow>
   updatedMap fsm (fm(f \<mapsto> mtimeMs i)) rest = updatedMap fsm fm (f # rest)"
  by (auto simp: updatedMap_def fun_eq_iff newerFile_upd_other newerFile_upd_same)

lemma updatedMap_step_old:
  "\<not> newerFile fsm fm f \<Longrightarrow> updatedMap fsm fm rest = updatedMap fsm fm (f # rest)"
  by (auto simp: updatedMap_def fun_eq_iff)

lemma updatedMap_Nil: "updatedMap fsm fm [] = fm"
  by (simp add: updatedMap_def)

lemma changedLoop_ok:
  "\<forall>f\<in>set files. fs s f \<noteq> None \<Longrightarrow>
   changedLoop files m acc s =
     (Inr (foldl (\<lambda>a f. setAdd f a) acc (filter (newerFile (fs s) (fileModifiedMaps s m)) files)),
      s\<lparr>fileModifiedMaps :=
           (fileModifiedMaps s)(m := updatedMap (fs s) (fileModifiedMaps s m) files),
         trace := trace s @ map Stat files\<rparr>)"
proof (induction files arbitrary: acc s)
  case Nil
  then show ?case by (simp add: updatedMap_Nil)
next
  case (Cons f rest)
  then obtain i where i: "fs s f = Some i" by auto
  let ?fm = "fileModifiedMaps s m"
  show ?case
  proof (cases "newerFile (fs s) ?fm f")
    case True
    let ?s1 = "(logEvent (Stat f) s)\<lparr>fileModifiedMaps :=
                 (fileModifiedMaps (logEvent (Stat f) s))
                   (m := (fileModifiedMaps (logEvent (Stat f) s) m)(f \<mapsto> mtimeMs i))\<rparr>"
    have ex: "\<forall>x\<in>set rest. fs ?s1 x \<noteq> None"
      using Cons.prems by (simp add: logEvent_def)
    have step: "changedLoop (f # rest) m acc s = changedLoop rest m (setAdd f acc) ?s1"
      using True i by (simp add: statSync_def newerFile_def split: option.splits)
    have fs1: "fs ?s1 = fs s" and fm1: "fileModifiedMaps ?s1 m = ?fm(f \<mapsto> mtimeMs i)"
      by (simp_all add: logEvent_def)
    have acc: "foldl (\<lambda>a f. setAdd f a) (setAdd f acc)
                 (filter (newerFile (fs s) (?fm(f \<mapsto> mtimeMs i))) rest) =
               foldl (\<lambda>a f. setAdd f a) acc (filter (newerFile (fs s) ?fm) (f # rest))"
    proof -
      have "f \<in> set (setAdd f acc)" by (simp add: setAdd_def)
      from foldl_setAdd_skip [OF this, of "newerFile (fs s) ?fm" rest] True show ?thesis
        by (simp add: filter_newer_upd [of "fs s" f i] i)
    qed
    have st: "?s1\<lparr>fileModifiedMaps :=
                    (fileModifiedMaps ?s1)(m := updatedMap (fs s) (?fm(f \<mapsto> mtimeMs i)) rest),
                  trace := trace ?s1 @ map Stat rest\<rparr> =
              s\<lparr>fileModifiedMaps := (fileModifiedMaps s)(m := updatedMap (fs s) ?fm (f # rest)),
                trace := trace s @ map Stat (f # rest)\<rparr>"
      by (simp add: logEvent_def updatedMap_step_newer [of "fs s" f i ?fm rest] i True)
    show ?thesis
      unfolding step Cons.IH [OF ex] fs1 fm1 acc st ..
  next
    case False
    let ?s1 = "logEvent (Stat f) s"
    have ex: "\<forall>x\<in>set rest. fs ?s1 x \<noteq> None"
      using Cons.prems by (simp add: logEvent_def)
    have step: "changedLoop (f # rest) m acc s = changedLoop rest m acc ?s1"
      using False i by (simp add: statSync_def newerFile_def split: option.splits)
    have fs1: "fs ?s1 = fs s" and fm1: "fileModifiedMaps ?s1 m = ?fm"
      by (simp_all add: logEvent_def)
    have acc: "foldl (\<lambda>a f. setAdd f a) acc (filter (newerFile (fs s) ?fm) rest) =
               foldl (\<lambda>a f. setAdd f a) acc (filter (newerFile (fs s) ?fm) (f # rest))"
      using False by simp
    have st: "?s1\<lparr>fileModifiedMaps := (fileModifiedMaps ?s1)(m := updatedMap (fs s) ?fm rest),
                  trace := trace ?s1 @ map Stat rest\<rparr> =
              s\<lparr>fileModifiedMaps := (fileModifiedMaps s)(m := updatedMap (fs s) ?fm (f # rest)),
                trace := trace s @ map Stat (f # rest)\<rparr>"
      by (simp add: logEvent_def updatedMap_step_old [of "fs s" ?fm f rest, symmetric] False)
    show ?thesis
      unfolding step Cons.IH [OF ex] fs1 fm1 acc st ..
  qed
qed

lemma changedLoop_Inr:
  "changedLoop files m acc s = (Inr r, s') \<Longrightarrow> \<forall>f\<in>set files. fs s f \<noteq> None"
proof (induction files arbitrary: acc s)
  case Nil
  then show ?case by simp
next
  case (Cons f rest)
  from Cons.prems obtain i where i: "fs s f = Some i"
    by (auto simp: statSync_def split: option.splits)
  have "\<exists>acc' s1. fs s1 = fs s \<and> changedLoop rest m acc' s1 = (Inr r, s')"
  proof (cases "case fileModifiedMaps s m f of None \<Rightarrow> True | Some t \<Rightarrow> mtimeMs i > t")
    case True
    let ?s1 = "(logEvent (Stat f) s)\<lparr>fileModifiedMaps :=
                 (fileModifiedMaps (logEvent (Stat f) s))
                   (m := (fileModifiedMaps (logEvent (Stat f) s) m)(f \<mapsto> mtimeMs i))\<rparr>"
    from Cons.prems i True have "changedLoop rest m (setAdd f acc) ?s1 = (Inr r, s')"
      by (simp add: statSync_def logEvent_def)
    moreover have "fs ?s1 = fs s" by (simp add: logEvent_def)
    ultimately show ?thesis by blast
  next
    case False
    from Cons.prems i False have "changedLoop rest m acc (logEvent (Stat f) s) = (Inr r, s')"
      by (simp add: statSync_def logEvent_def)
    moreover have "fs (logEvent (Stat f) s) = fs s" by (simp add: logEvent_def)
    ultimately show ?thesis by blast
  qed
  then obtain acc' s1 where "fs s1 = fs s" "changedLoop rest m acc' s1 = (Inr r, s')" by blast
  with Cons.IH [of acc' s1] i show ?case by simp
qed

lemma readLoop_ok:
  "\<forall>f\<in>set files. fs s f \<noteq> None \<Longrightarrow>
   readLoop X files acc s =
     (Inr (acc @ map (fileEntry X (fs s)) files), s\<lparr>trace := trace s @ map ReadFile files\<rparr>)"
proof (induction files arbitrary: acc s)
  case Nil
  then show ?case by simp
next
  case (Cons f rest)
  then obtain i where i: "fs s f = Some i" by auto
  have ex: "\<forall>x\<in>set rest. fs (logEvent (ReadFile f) s) x \<noteq> None"
    using Cons.prems by (simp add: logEvent_def)
  show ?case
    using i by (simp add: readFileSync_def Cons.IH [OF ex] fileEntry_def) (simp add: logEvent_def)
qed

lemma readsOf_append: "readsOf (xs @ ys) = readsOf xs @ readsOf ys"
  by (induction xs rule: readsOf.induct) simp_all

lemma readsOf_Stat: "readsOf (map Stat xs) = []"
  by (induction xs) simp_all

lemma readsOf_ReadFile: "readsOf (map ReadFile xs) = xs"
  by (induction xs) simp_all

text \<open>What the scan leaves in the trace between the glob and the reads.\<close>

lemma resolveChangedFiles_ok:
  assumes "\<forall>f\<in>set (fastGlobSync X (fs s) candidateFiles). fs s f \<noteq> None"
  shows "resolveChangedFiles X candidateFiles m s =
     (Inr (foldl (\<lambda>a f. setAdd f a) []
             (filter (newerFile (fs s) (fileModifiedMaps s m))
                (fastGlobSync X (fs s) candidateFiles))),
      s\<lparr>fileModifiedMaps :=
           (fileModifiedMaps s)
             (m := updatedMap (fs s) (fileModifiedMaps s m) (fastGlobSync X (fs s) candidateFiles)),
         trace := trace s @ (if env_DEBUG X then [ConsoleTime] else []) @
                  Glob candidateFiles # map Stat (fastGlobSync X (fs s) candidateFiles) @
                  (if env_DEBUG X then [ConsoleTimeEnd] else [])\<rparr>)"
proof -
  let ?s0 = "logEvent (Glob candidateFiles) (if env_DEBUG X then logEvent ConsoleTime s else s)"
  have fs0: "fs ?s0 = fs s" and fm0: "fileModifiedMaps ?s0 = fileModifiedMaps s"
    by (simp_all add: logEvent_def)
  have ex: "\<forall>f\<in>set (fastGlobSync X (fs s) candidateFiles). fs ?s0 f \<noteq> None"
    using assms unfolding fs0 .
  have fsd: "fs (if env_DEBUG X then logEvent ConsoleTime s else s) = fs s"
    by (simp add: logEvent_def)
  show ?thesis
    unfolding resolveChangedFiles_def Let_def fsd changedLoop_ok [OF ex] fs0 fm0
    by (simp add: logEvent_def)
qed

lemma resolveChangedFiles_Inr:
  "resolveChangedFiles X candidateFiles m s = (Inr r, s') \<Longrightarrow>
   \<forall>f\<in>set (fastGlobSync X (fs s) candidateFiles). fs s f \<noteq> None"
proof -
  assume a: "resolveChangedFiles X candidateFiles m s = (Inr r, s')"
  let ?s0 = "logEvent (Glob candidateFiles) (if env_DEBUG X then logEvent ConsoleTime s else s)"
  have fsd: "fs (if env_DEBUG X then logEvent ConsoleTime s else s) = fs s"
    and fs0: "fs ?s0 = fs s"
    by (simp_all add: logEvent_def)
  from a obtain r' s1 where
    "changedLoop (fastGlobSync X (fs s) candidateFiles) m [] ?s0 = (Inr r', s1)"
    unfolding resolveChangedFiles_def Let_def fsd
    by (auto split: prod.splits sum.splits)
  from changedLoop_Inr [OF this] show ?thesis unfolding fs0 .
qed

lemma resolveChangedFiles_props:
  assumes a: "resolveChangedFiles X candidateFiles m s = (Inr changedFiles, s1)"
  shows "(\<forall>f\<in>set (fastGlobSync X (fs s) candidateFiles).
            (f \<in> set changedFiles) = newerFile (fs s) (fileModifiedMaps s m) f)"
    and "set changedFiles \<subseteq> set (fastGlobSync X (fs s) candidateFiles)"
    and "distinct changedFiles"
    and "\<forall>f\<in>set changedFiles. fs s f \<noteq> None \<and> fileModifiedMaps s1 m f = map_option mtimeMs (fs s f)"
    and "\<forall>f. f \<notin> set changedFiles \<longrightarrow> fileModifiedMaps s1 m f = fileModifiedMaps s m f"
    and "\<forall>m'. m' \<noteq> m \<longrightarrow> fileModifiedMaps s1 m' = fileModifiedMaps s m'"
    and "readsOf (trace s1) = readsOf (trace s)"
    and "fs s1 = fs s" and "contexts s1 = contexts s"
proof -
  let ?files = "fastGlobSync X (fs s) candidateFiles"
  let ?fm = "fileModifiedMaps s m"
  have ex: "\<forall>f\<in>set ?files. fs s f \<noteq> None"
    using resolveChangedFiles_Inr [OF a] .
  from a resolveChangedFiles_ok [OF ex, of m]
  have ch: "changedFiles = foldl (\<lambda>a f. setAdd f a) [] (filter (newerFile (fs s) ?fm) ?files)"
    and s1: "s1 = s\<lparr>fileModifiedMaps := (fileModifiedMaps s)(m := updatedMap (fs s) ?fm ?files),
         trace := trace s @ (if env_DEBUG X then [ConsoleTime] else []) @
                  Glob candidateFiles # map Stat ?files @
                  (if env_DEBUG X then [ConsoleTimeEnd] else [])\<rparr>"
    by simp_all
  have set_ch: "set changedFiles = {f \<in> set ?files. newerFile (fs s) ?fm f}"
    unfolding ch by (simp add: set_foldl_setAdd)
  show "\<forall>f\<in>set ?files. (f \<in> set changedFiles) = newerFile (fs s) ?fm f"
    using set_ch by simp
  show "set changedFiles \<subseteq> set ?files" using set_ch by auto
  show "distinct changedFiles" unfolding ch by (simp add: distinct_foldl_setAdd)
  show "\<forall>f\<in>set changedFiles. fs s f \<noteq> None \<and> fileModifiedMaps s1 m f = map_option mtimeMs (fs s f)"
    using set_ch ex by (simp add: s1 updatedMap_def)
  show "\<forall>f. f \<notin> set changedFiles \<longrightarrow> fileModifiedMaps s1 m f = fileModifiedMaps s m f"
    using set_ch by (simp add: s1 updatedMap_def)
  show "\<forall>m'. m' \<noteq> m \<longrightarrow> fileModifiedMaps s1 m' = fileModifiedMaps s m'"
    by (simp add: s1)
  show "readsOf (trace s1) = readsOf (trace s)"
    by (simp add: s1 readsOf_append readsOf_Stat)
  show "fs s1 = fs s" "contexts s1 = contexts s" by (simp_all add: s1)
qed

lemma resolvedChangedContent_props:
  assumes a: "resolvedChangedContent X c candidateFiles m s = (Inr changedContents, s2)"
  shows "\<exists>items changedFiles s1.
           purgeContent (ctx_tailwindConfig (contexts s c)) = Inr items \<and>
           resolveChangedFiles X candidateFiles m s = (Inr changedFiles, s1) \<and>
           changedContents = rawItems items @ map (fileEntry X (fs s)) changedFiles \<and>
           s2 = s1\<lparr>trace := trace s1 @ map ReadFile changedFiles\<rparr>"
proof -
  from a obtain items where items: "purgeContent (ctx_tailwindConfig (contexts s c)) = Inr items"
    unfolding resolvedChangedContent_def by (auto split: sum.splits)
  from a items obtain changedFiles s1 where
    r: "resolveChangedFiles X candidateFiles m s = (Inr changedFiles, s1)"
    unfolding resolvedChangedContent_def by (auto split: sum.splits prod.splits)
  from resolveChangedFiles_props(4,8) [OF r]
  have ex: "\<forall>f\<in>set changedFiles. fs s1 f \<noteq> None" and fs1: "fs s1 = fs s" by simp_all
  from a items r have "readLoop X changedFiles (rawItems items) s1 = (Inr changedContents, s2)"
    unfolding resolvedChangedContent_def by simp
  with readLoop_ok [OF ex, of X "rawItems items"] fs1 items r show ?thesis by simp
qed

text \<open>
  C6. The build-mode scan \<^verbatim>\<open>resolveChangedFiles(candidateFiles, fileModifiedMap)\<close>, with
  \<open>m\<close> the map. It returns exactly when every file fast-glob found can be stat'ed. When
  it returns \<open>changedFiles\<close>: a file of the expanded list is among them if and only if
  its timestamp is strictly greater than the one the map held for it, a file the map
  did not hold counting as older than everything (\<open>newerFile\<close>); each of them has its
  map entry set to its timestamp; every other path keeps its map entry; no file is
  read. \<^verbatim>\<open>resolvedChangedContent\<close> then reads exactly the files of \<open>changedFiles\<close>, in
  order, and returns the inline raw entries followed by one record per changed file.
\<close>

theorem resolveChangedFiles_scan:
  "((\<exists>changedFiles s1. resolveChangedFiles X candidateFiles m s = (Inr changedFiles, s1)) =
      (\<forall>f\<in>set (fastGlobSync X (fs s) candidateFiles). fs s f \<noteq> None)) \<and>
   (resolveChangedFiles X candidateFiles m s = (Inr changedFiles, s1) \<longrightarrow>
      (\<forall>f\<in>set (fastGlobSync X (fs s) candidateFiles).
          (f \<in> set changedFiles) =
          (\<exists>i. fs s f = Some i \<and>
               (case fileModifiedMaps s m f of None \<Rightarrow> True | Some t \<Rightarrow> mtimeMs i > t))) \<and>
      set changedFiles \<subseteq> set (fastGlobSync X (fs s) candidateFiles) \<and>
      distinct changedFiles \<and>
      (\<forall>f\<in>set changedFiles. \<exists>i. fs s f = Some i \<and> fileModifiedMaps s1 m f = Some (mtimeMs i)) \<and>
      (\<forall>f. f \<notin> set changedFiles \<longrightarrow> fileModifiedMaps s1 m f = fileModifiedMaps s m f) \<and>
      readsOf (trace s1) = readsOf (trace s) \<and>
      fs s1 = fs s) \<and>
   (resolvedChangedContent X c candidateFiles m s = (Inr changedContents, s2) \<longrightarrow>
      (\<exists>items changedFiles s1.
          purgeContent (ctx_tailwindConfig (contexts s c)) = Inr items \<and>
          resolveChangedFiles X candidateFiles m s = (Inr changedFiles, s1) \<and>
          changedContents = rawItems items @ map (fileEntry X (fs s)) changedFiles \<and>
          readsOf (trace s2) = readsOf (trace s) @ changedFiles \<and>
          fileModifiedMaps s2 = fileModifiedMaps s1))"
proof (intro conjI impI)
  show "(\<exists>changedFiles s1. resolveChangedFiles X candidateFiles m s = (Inr changedFiles, s1)) =
      (\<forall>f\<in>set (fastGlobSync X (fs s) candidateFiles). fs s f \<noteq> None)"
    using resolveChangedFiles_Inr [of X candidateFiles m s]
      resolveChangedFiles_ok [of X s candidateFiles m]
    by blast
next
  assume a: "resolveChangedFiles X candidateFiles m s = (Inr changedFiles, s1)"
  note P = resolveChangedFiles_props [OF a] resolveChangedFiles_Inr [OF a]
  show "\<forall>f\<in>set (fastGlobSync X (fs s) candidateFiles).
          (f \<in> set changedFiles) =
          (\<exists>i. fs s f = Some i \<and>
               (case fileModifiedMaps s m f of None \<Rightarrow> True | Some t \<Rightarrow> mtimeMs i > t))"
    using P(1) by (auto simp: newerFile_def split: option.splits)
  show "set changedFiles \<subseteq> set (fastGlobSync X (fs s) candidateFiles)" by (rule P(2))
  show "distinct changedFiles" by (rule P(3))
  show "\<forall>f\<in>set changedFiles. \<exists>i. fs s f = Some i \<and> fileModifiedMaps s1 m f = Some (mtimeMs i)"
    using P(4) by auto
  show "\<forall>f. f \<notin> set changedFiles \<longrightarrow> fileModifiedMaps s1 m f = fileModifiedMaps s m f"
    by (rule P(5))
  show "readsOf (trace s1) = readsOf (trace s)" by (rule P(7))
  show "fs s1 = fs s" by (rule P(8))
next
  assume a: "resolvedChangedContent X c candidateFiles m s = (Inr changedContents, s2)"
  from resolvedChangedContent_props [OF a] obtain items changedFiles s1 where
    b: "purgeContent (ctx_tailwindConfig (contexts s c)) = Inr items"
       "resolveChangedFiles X candidateFiles m s = (Inr changedFiles, s1)"
       "changedContents = rawItems items @ map (fileEntry X (fs s)) changedFiles"
       "s2 = s1\<lparr>trace := trace s1 @ map ReadFile changedFiles\<rparr>"
    by blast
  from resolveChangedFiles_props(7) [OF b(2)] b(4)
  have "readsOf (trace s2) = readsOf (trace s) @ changedFiles"
    by (simp add: readsOf_append readsOf_ReadFile)
  with b show "\<exists>items changedFiles s1.
          purgeContent (ctx_tailwindConfig (contexts s c)) = Inr items \<and>
          resolveChangedFiles X candidateFiles m s = (Inr changedFiles, s1) \<and>
          changedContents = rawItems items @ map (fileEntry X (fs s)) changedFiles \<and>
          readsOf (trace s2) = readsOf (trace s) @ changedFiles \<and>
          fileModifiedMaps s2 = fileModifiedMaps s1"
    by auto
qed

lemmas scan_defs =
  resolveChangedFiles_def resolvedChangedContent_def purgeContent_def setAdd_def fileEntry_def

theorem resolveChangedFiles_scan_witness:
  "fst (resolveChangedFiles sampleX [''/proj/src/**/*.html''] 0 sampleState) =
     Inr [''/proj/src/a.html''] \<and>
   fileModifiedMaps (snd (resolveChangedFiles sampleX [''/proj/src/**/*.html''] 0 sampleState)) 0
     ''/proj/src/a.html'' = Some 5 \<and>
   fst (resolveChangedFiles sampleX [''/proj/src/**/*.html''] 0
          (snd (resolveChangedFiles sampleX [''/proj/src/**/*.html''] 0 sampleState))) = Inr [] \<and>
   fst (resolvedChangedContent sampleX 0 [''/proj/src/**/*.html''] 0 sampleState) =
     Inr [\<lparr>content = ''<div class=p-4>'', extension = Some ''html''\<rparr>,
          \<lparr>content = ''<p class=m-1>'', extension = Some ''html''\<rparr>]"
proof -
  let ?cands = "[''/proj/src/**/*.html'']"
  let ?r = "resolveChangedFiles sampleX ?cands 0 sampleState"
  let ?rc = "resolvedChangedContent sampleX 0 ?cands 0 sampleState"
  have ex: "\<forall>f\<in>set (fastGlobSync sampleX (fs sampleState) ?cands). fs sampleState f \<noteq> None"
    by (simp add: sample_defs)
  have r1: "fst ?r = Inr [''/proj/src/a.html'']"
    by (simp add: scan_defs sample_defs)
  have rc1: "fst ?rc = Inr [\<lparr>content = ''<div class=p-4>'', extension = Some ''html''\<rparr>,
                            \<lparr>content = ''<p class=m-1>'', extension = Some ''html''\<rparr>]"
    by (simp add: scan_defs sample_defs)
  have r: "?r = (Inr [''/proj/src/a.html''], snd ?r)"
    using r1 by (simp add: prod_eq_iff)
  have rc: "?rc = (Inr [\<lparr>content = ''<div class=p-4>'', extension = Some ''html''\<rparr>,
                        \<lparr>content = ''<p class=m-1>'', extension = Some ''html''\<rparr>], snd ?rc)"
    using rc1 by (simp add: prod_eq_iff)
  have again: "fst (resolveChangedFiles sampleX ?cands 0 (snd ?r)) = Inr []"
    by (simp add: scan_defs sample_defs)
  from resolveChangedFiles_scan
         [of sampleX ?cands 0 sampleState "[''/proj/src/a.html'']" "snd ?r" 0
             "[\<lparr>content = ''<div class=p-4>'', extension = Some ''html''\<rparr>,
               \<lparr>content = ''<p class=m-1>'', extension = Some ''html''\<rparr>]" "snd ?rc"] r rc
  have "\<forall>f\<in>set [''/proj/src/a.html''].
          \<exists>i. fs sampleState f = Some i \<and> fileModifiedMaps (snd ?r) 0 f = Some (mtimeMs i)"
    by blast
  then have "fileModifiedMaps (snd ?r) 0 ''/proj/src/a.html'' = Some 5"
    by (simp add: sampleState_def)
  with r1 rc1 again show ?thesis by simp
qed

section \<open>The touch protocol and the watcher's handlers\<close>

lemma touch_result:
  "touch X f s =
     (if touchable X s f
      then (Inr (), s\<lparr>fs := (fs s)(f \<mapsto> touched (fs s f) (now s)),
                      trace := trace s @ Utimes f # (if fs s f = None then [OpenWrite f] else [])\<rparr>)
      else (Inl (ENOENT f), s\<lparr>trace := trace s @ [Utimes f, OpenWrite f]\<rparr>))"
  by (auto simp: touch_def utimesSync_def openWrite_def logEvent_def touchable_def touched_def Let_def
           split: option.splits)

text \<open>
  C8. \<^verbatim>\<open>touch(filename)\<close>: when the file exists its timestamp becomes the current time
  and nothing else changes; when it does not exist and its directory does, the file is
  created empty (stamped with the current time) and the call returns normally; when it
  cannot be created either, the error reaches the caller. In every case the call either
  returns with the file present and stamped with the current time, or throws.
\<close>

theorem touch_updates_or_creates:
  "(fs s f = Some i \<longrightarrow>
      touch X f s = (Inr (), s\<lparr>fs := (fs s)(f \<mapsto> i\<lparr>mtimeMs := now s\<rparr>),
                               trace := trace s @ [Utimes f]\<rparr>)) \<and>
   (fs s f = None \<and> pathDirname X f \<in> dirs s \<longrightarrow>
      touch X f s = (Inr (), s\<lparr>fs := (fs s)(f \<mapsto> \<lparr>mtimeMs = now s, body = []\<rparr>),
                               trace := trace s @ [Utimes f, OpenWrite f]\<rparr>)) \<and>
   (fs s f = None \<and> pathDirname X f \<notin> dirs s \<longrightarrow>
      touch X f s = (Inl (ENOENT f), s\<lparr>trace := trace s @ [Utimes f, OpenWrite f]\<rparr>)) \<and>
   (\<forall>s'. touch X f s = (Inr (), s') \<longrightarrow> (\<exists>j. fs s' f = Some j \<and> mtimeMs j = now s))"
  by (auto simp: touch_result touchable_def touched_def split: option.splits)

theorem touch_updates_or_creates_witness:
  "fs (snd (touch sampleX ''/proj/src/a.html'' sampleState)) ''/proj/src/a.html'' =
     Some \<lparr>mtimeMs = 100, body = ''<p class=m-1>''\<rparr> \<and>
   fst (touch sampleX ''/proj/src/a.html'' sampleState) = Inr () \<and>
   fs (snd (touch sampleX ''/proj/src/new.html'' sampleState)) ''/proj/src/new.html'' =
     Some \<lparr>mtimeMs = 100, body = []\<rparr> \<and>
   fst (touch sampleX ''/proj/src/new.html'' sampleState) = Inr () \<and>
   fst (touch sampleX ''/nowhere/new.html'' sampleState) = Inl (ENOENT ''/nowhere/new.html'')"
proof -
  have a: "fs sampleState ''/proj/src/a.html'' = Some \<lparr>mtimeMs = 5, body = ''<p class=m-1>''\<rparr>"
    and b: "fs sampleState ''/proj/src/new.html'' = None \<and>
            pathDirname sampleX ''/proj/src/new.html'' \<in> dirs sampleState"
    and c: "fs sampleState ''/nowhere/new.html'' = None \<and>
            pathDirname sampleX ''/nowhere/new.html'' \<notin> dirs sampleState"
    and n: "now sampleState = 100"
    by (simp_all add: sampleState_def sampleX_def)
  from a touch_updates_or_creates
         [of sampleState "''/proj/src/a.html''" "\<lparr>mtimeMs = 5, body = ''<p class=m-1>''\<rparr>" sampleX]
  have 1: "touch sampleX ''/proj/src/a.html'' sampleState =
      (Inr (), sampleState\<lparr>fs := (fs sampleState)
                  (''/proj/src/a.html'' \<mapsto> \<lparr>mtimeMs = 5, body = ''<p class=m-1>''\<rparr>
                                              \<lparr>mtimeMs := now sampleState\<rparr>),
                trace := trace sampleState @ [Utimes ''/proj/src/a.html'']\<rparr>)"
    by blast
  from b touch_updates_or_creates [of sampleState "''/proj/src/new.html''" _ sampleX]
  have 2: "touch sampleX ''/proj/src/new.html'' sampleState =
      (Inr (), sampleState\<lparr>fs := (fs sampleState)
                  (''/proj/src/new.html'' \<mapsto> \<lparr>mtimeMs = now sampleState, body = []\<rparr>),
                trace := trace sampleState @ [Utimes ''/proj/src/new.html'',
                                              OpenWrite ''/proj/src/new.html'']\<rparr>)"
    by blast
  from c touch_updates_or_creates [of sampleState "''/nowhere/new.html''" _ sampleX]
  have 3: "touch sampleX ''/nowhere/new.html'' sampleState =
      (Inl (ENOENT ''/nowhere/new.html''),
       sampleState\<lparr>trace := trace sampleState @ [Utimes ''/nowhere/new.html'',
                                                 OpenWrite ''/nowhere/new.html'']\<rparr>)"
    by blast
  show ?thesis unfolding 1 2 3 by (simp add: n)
qed

lemma readAndTouch_result:
  assumes "fs s (pathResolve X [''.'', file]) = Some i"
    and "touchable X s (w_touchFile w)"
  shows "readAndTouch X w file s =
     (Inr (),
      s\<lparr>contexts := (contexts s)
           (w_context w := (contexts s (w_context w))
              \<lparr>ctx_changedContent := ctx_changedContent (contexts s (w_context w)) @
                 [fileEntry X (fs s) (pathResolve X [''.'', file])]\<rparr>),
        fs := (fs s)(w_touchFile w \<mapsto> touched (fs s (w_touchFile w)) (now s)),
        trace := trace s @ ReadFile (pathResolve X [''.'', file]) # Utimes (w_touchFile w) #
                 (if fs s (w_touchFile w) = None then [OpenWrite (w_touchFile w)] else [])\<rparr>)"
  using assms
  by (simp add: readAndTouch_def readFileSync_def touch_result pushChanged_def logEvent_def
        touchable_def fileEntry_def Let_def)

lemma invalidate_ok:
  "\<forall>d\<in>set ds. requireResolve X (fs s) d \<noteq> None \<Longrightarrow>
   invalidate X ds s =
     (Inr (), s\<lparr>requireCache := requireCache s |` (- set (resolvedKeys X (fs s) ds))\<rparr>)"
proof (induction ds arbitrary: s)
  case Nil
  then show ?case by (simp add: resolvedKeys_def)
next
  case (Cons d ds)
  then obtain k where k: "requireResolve X (fs s) d = Some k" by auto
  let ?s1 = "s\<lparr>requireCache := (requireCache s)(k := None)\<rparr>"
  have ex: "\<forall>x\<in>set ds. requireResolve X (fs ?s1) x \<noteq> None"
    using Cons.prems by simp
  have "invalidate X (d # ds) s = invalidate X ds ?s1"
    using k by simp
  also have "\<dots> = (Inr (), ?s1\<lparr>requireCache :=
                          requireCache ?s1 |` (- set (resolvedKeys X (fs ?s1) ds))\<rparr>)"
    by (rule Cons.IH [OF ex])
  also have "\<dots> = (Inr (), s\<lparr>requireCache :=
                          requireCache s |` (- set (resolvedKeys X (fs s) (d # ds)))\<rparr>)"
    using k by (auto simp: resolvedKeys_def fun_eq_iff restrict_map_def)
  finally show ?case .
qed
lemma touchConfig_result:
  assumes "\<forall>d\<in>set (configDependenciesOf s (w_context w)). requireResolve X (fs s) d \<noteq> None"
    and "w_configPath w = Some configPath"
    and "touchable X s configPath"
  shows "touchConfig X w s =
     (Inr (),
      s\<lparr>requireCache :=
           requireCache s |` (- set (resolvedKeys X (fs s) (configDependenciesOf s (w_context w)))),
        fs := (fs s)(configPath \<mapsto> touched (fs s configPath) (now s)),
        trace := trace s @ Utimes configPath #
                 (if fs s configPath = None then [OpenWrite configPath] else [])\<rparr>)"
  using assms
  by (simp add: touchConfig_def invalidate_ok touch_result touchable_def)

lemma set_resolvedKeys:
  "set (resolvedKeys X fsm ds) = {k. \<exists>d\<in>set ds. requireResolve X fsm d = Some k}"
  by (induction ds) (auto simp: resolvedKeys_def split: option.splits)

lemma touched_props:
  "mtimeMs (touched old time) = time"
  "old = Some i \<Longrightarrow> body (touched old time) = body i"
  "old = None \<Longrightarrow> body (touched old time) = []"
  by (simp_all add: touched_def split: option.splits)

text \<open>
  C7. The handler of a \<^verbatim>\<open>'change'\<close> event of an armed watcher \<open>w\<close>, for the changed
  path \<open>file\<close>.

  If \<open>file\<close> is in the watcher's \<^verbatim>\<open>configDependencies\<close> (every dependency resolving,
  and the configuration file present or creatable): the handler returns; no context
  changes, so nothing is appended to any \<open>changedContent\<close>; no file is read; the
  \<^verbatim>\<open>require.cache\<close> entry of every configuration dependency is gone and no other entry
  changes; the configuration file is stamped with the current time (past its old
  timestamp whenever the clock is), and no other file changes.

  Otherwise (the changed file readable, the touch file present or creatable): the
  handler returns; the file is read and its record is the one appended to the context's
  \<open>changedContent\<close>; the touch file is stamped with the current time; \<^verbatim>\<open>require.cache\<close>
  is untouched.
\<close>

theorem onChange_handler:
  "(file \<in> set (configDependenciesOf s (w_context w)) \<and>
    (\<forall>d\<in>set (configDependenciesOf s (w_context w)). requireResolve X (fs s) d \<noteq> None) \<and>
    w_configPath w = Some configPath \<and> touchable X s configPath
    \<longrightarrow> (\<exists>s'. onChange X w file s = (Inr (), s') \<and>
              contexts s' = contexts s \<and>
              readsOf (trace s') = readsOf (trace s) \<and>
              (\<forall>d\<in>set (configDependenciesOf s (w_context w)).
                  \<forall>k. requireResolve X (fs s) d = Some k \<longrightarrow> requireCache s' k = None) \<and>
              (\<forall>k. k \<notin> set (resolvedKeys X (fs s) (configDependenciesOf s (w_context w)))
                  \<longrightarrow> requireCache s' k = requireCache s k) \<and>
              (\<exists>j. fs s' configPath = Some j \<and> mtimeMs j = now s \<and>
                   (\<forall>i. fs s configPath = Some i \<longrightarrow>
                        body j = body i \<and> (mtimeMs i < now s \<longrightarrow> mtimeMs i < mtimeMs j))) \<and>
              (\<forall>g. g \<noteq> configPath \<longrightarrow> fs s' g = fs s g)))
   \<and>
   (file \<notin> set (configDependenciesOf s (w_context w)) \<and>
    fs s (pathResolve X [''.'', file]) = Some i \<and> touchable X s (w_touchFile w)
    \<longrightarrow> (\<exists>s'. onChange X w file s = (Inr (), s') \<and>
              ctx_changedContent (contexts s' (w_context w)) =
                ctx_changedContent (contexts s (w_context w)) @
                  [\<lparr>content = body i,
                    extension = Some (drop 1 (pathExtname X (pathResolve X [''.'', file])))\<rparr>] \<and>
              (\<forall>c. c \<noteq> w_context w \<longrightarrow> contexts s' c = contexts s c) \<and>
              readsOf (trace s') = readsOf (trace s) @ [pathResolve X [''.'', file]] \<and>
              requireCache s' = requireCache s \<and>
              (\<exists>j. fs s' (w_touchFile w) = Some j \<and> mtimeMs j = now s \<and>
                   (\<forall>i. fs s (w_touchFile w) = Some i \<longrightarrow>
                        (mtimeMs i < now s \<longrightarrow> mtimeMs i < mtimeMs j))) \<and>
              (\<forall>g. g \<noteq> w_touchFile w \<longrightarrow> fs s' g = fs s g)))"
proof (rule conjI; rule impI)
  assume a: "file \<in> set (configDependenciesOf s (w_context w)) \<and>
    (\<forall>d\<in>set (configDependenciesOf s (w_context w)). requireResolve X (fs s) d \<noteq> None) \<and>
    w_configPath w = Some configPath \<and> touchable X s configPath"
  let ?ds = "configDependenciesOf s (w_context w)"
  let ?s' = "s\<lparr>requireCache := requireCache s |` (- set (resolvedKeys X (fs s) ?ds)),
        fs := (fs s)(configPath \<mapsto> touched (fs s configPath) (now s)),
        trace := trace s @ Utimes configPath #
                 (if fs s configPath = None then [OpenWrite configPath] else [])\<rparr>"
  from a have r: "onChange X w file s = (Inr (), ?s')"
    by (simp add: onChange_def touchConfig_result)
  have "contexts ?s' = contexts s" by simp
  moreover have "readsOf (trace ?s') = readsOf (trace s)" by (simp add: readsOf_append)
  moreover have "\<forall>d\<in>set ?ds. \<forall>k. requireResolve X (fs s) d = Some k \<longrightarrow> requireCache ?s' k = None"
    by (auto simp: set_resolvedKeys restrict_map_def)
  moreover have "\<forall>k. k \<notin> set (resolvedKeys X (fs s) ?ds) \<longrightarrow> requireCache ?s' k = requireCache s k"
    by simp
  moreover have "\<exists>j. fs ?s' configPath = Some j \<and> mtimeMs j = now s \<and>
                   (\<forall>i. fs s configPath = Some i \<longrightarrow>
                        body j = body i \<and> (mtimeMs i < now s \<longrightarrow> mtimeMs i < mtimeMs j))"
    by (simp add: touched_props)
  moreover have "\<forall>g. g \<noteq> configPath \<longrightarrow> fs ?s' g = fs s g" by simp
  ultimately show "\<exists>s'. onChange X w file s = (Inr (), s') \<and>
              contexts s' = contexts s \<and>
              readsOf (trace s') = readsOf (trace s) \<and>
              (\<forall>d\<in>set (configDependenciesOf s (w_context w)).
                  \<forall>k. requireResolve X (fs s) d = Some k \<longrightarrow> requireCache s' k = None) \<and>
              (\<forall>k. k \<notin> set (resolvedKeys X (fs s) (configDependenciesOf s (w_context w)))
                  \<longrightarrow> requireCache s' k = requireCache s k) \<and>
              (\<exists>j. fs s' configPath = Some j \<and> mtimeMs j = now s \<and>
                   (\<forall>i. fs s configPath = Some i \<longrightarrow>
                        body j = body i \<and> (mtimeMs i < now s \<longrightarrow> mtimeMs i < mtimeMs j))) \<and>
              (\<forall>g. g \<noteq> configPath \<longrightarrow> fs s' g = fs s g)"
    using r by blast
next
  assume a: "file \<notin> set (configDependenciesOf s (w_context w)) \<and>
    fs s (pathResolve X [''.'', file]) = Some i \<and> touchable X s (w_touchFile w)"
  let ?cf = "pathResolve X [''.'', file]"
  let ?tf = "w_touchFile w"
  let ?s' = "s\<lparr>contexts := (contexts s)
           (w_context w := (contexts s (w_context w))
              \<lparr>ctx_changedContent := ctx_changedContent (contexts s (w_context w)) @
                 [fileEntry X (fs s) ?cf]\<rparr>),
        fs := (fs s)(?tf \<mapsto> touched (fs s ?tf) (now s)),
        trace := trace s @ ReadFile ?cf # Utimes ?tf #
                 (if fs s ?tf = None then [OpenWrite ?tf] else [])\<rparr>"
  from a have r: "onChange X w file s = (Inr (), ?s')"
    by (simp add: onChange_def readAndTouch_result)
  have "ctx_changedContent (contexts ?s' (w_context w)) =
                ctx_changedContent (contexts s (w_context w)) @
                  [\<lparr>content = body i, extension = Some (drop 1 (pathExtname X ?cf))\<rparr>]"
    using a by (simp add: fileEntry_def)
  moreover have "\<forall>c. c \<noteq> w_context w \<longrightarrow> contexts ?s' c = contexts s c" by simp
  moreover have "readsOf (trace ?s') = readsOf (trace s) @ [?cf]" by (simp add: readsOf_append)
  moreover have "requireCache ?s' = requireCache s" by simp
  moreover have "\<exists>j. fs ?s' ?tf = Some j \<and> mtimeMs j = now s \<and>
                   (\<forall>i. fs s ?tf = Some i \<longrightarrow> (mtimeMs i < now s \<longrightarrow> mtimeMs i < mtimeMs j))"
    by (simp add: touched_props)
  moreover have "\<forall>g. g \<noteq> ?tf \<longrightarrow> fs ?s' g = fs s g" by simp
  ultimately show "\<exists>s'. onChange X w file s = (Inr (), s') \<and>
              ctx_changedContent (contexts s' (w_context w)) =
                ctx_changedContent (contexts s (w_context w)) @
                  [\<lparr>content = body i,
                    extension = Some (drop 1 (pathExtname X (pathResolve X [''.'', file])))\<rparr>] \<and>
              (\<forall>c. c \<noteq> w_context w \<longrightarrow> contexts s' c = contexts s c) \<and>
              readsOf (trace s') = readsOf (trace s) @ [pathResolve X [''.'', file]] \<and>
              requireCache s' = requireCache s \<and>
              (\<exists>j. fs s' (w_touchFile w) = Some j \<and> mtimeMs j = now s \<and>
                   (\<forall>i. fs s (w_touchFile w) = Some i \<longrightarrow>
                        (mtimeMs i < now s \<longrightarrow> mtimeMs i < mtimeMs j))) \<and>
              (\<forall>g. g \<noteq> w_touchFile w \<longrightarrow> fs s' g = fs s g)"
    using r by blast
qed

lemmas handler_defs =
  onChange_def onAdd_def onUnlink_def touchConfig_def readAndTouch_def touch_def utimesSync_def
  openWrite_def pushChanged_def configDependenciesOf_def sampleWatching_def sampleWatcher_def
  touchable_def

theorem onChange_handler_witness:
  "fst (onChange sampleX sampleWatcher ''/proj/theme.js'' sampleWatching) = Inr () \<and>
   fs (snd (onChange sampleX sampleWatcher ''/proj/theme.js'' sampleWatching)) ''/proj/tw.config'' =
     Some \<lparr>mtimeMs = 100, body = ''module.exports = {}''\<rparr> \<and>
   requireCache (snd (onChange sampleX sampleWatcher ''/proj/theme.js'' sampleWatching))
     ''/proj/theme.js'' = None \<and>
   ctx_changedContent
     (contexts (snd (onChange sampleX sampleWatcher ''/proj/theme.js'' sampleWatching)) 0) = [] \<and>
   fst (onChange sampleX sampleWatcher ''/proj/src/a.html'' sampleWatching) = Inr () \<and>
   ctx_changedContent
     (contexts (snd (onChange sampleX sampleWatcher ''/proj/src/a.html'' sampleWatching)) 0) =
     [\<lparr>content = ''<p class=m-1>'', extension = Some ''html''\<rparr>] \<and>
   map_option mtimeMs
     (fs (snd (onChange sampleX sampleWatcher ''/proj/src/a.html'' sampleWatching))
        ''/home/u/.tailwindcss/touch/touch-4242-0123456789AB'') = Some 100"
proof -
  let ?c = "onChange sampleX sampleWatcher ''/proj/theme.js'' sampleWatching"
  let ?a = "onChange sampleX sampleWatcher ''/proj/src/a.html'' sampleWatching"
  have h1: "''/proj/theme.js'' \<in> set (configDependenciesOf sampleWatching (w_context sampleWatcher)) \<and>
    (\<forall>d\<in>set (configDependenciesOf sampleWatching (w_context sampleWatcher)).
        requireResolve sampleX (fs sampleWatching) d \<noteq> None) \<and>
    w_configPath sampleWatcher = Some ''/proj/tw.config'' \<and>
    touchable sampleX sampleWatching ''/proj/tw.config''"
    by (simp add: handler_defs sample_defs)
  have h2: "''/proj/src/a.html'' \<notin> set (configDependenciesOf sampleWatching (w_context sampleWatcher)) \<and>
    fs sampleWatching (pathResolve sampleX [''.'', ''/proj/src/a.html'']) =
      Some \<lparr>mtimeMs = 5, body = ''<p class=m-1>''\<rparr> \<and>
    touchable sampleX sampleWatching (w_touchFile sampleWatcher)"
    by (simp add: handler_defs sample_defs)
  from onChange_handler
         [of "''/proj/theme.js''" sampleWatching sampleWatcher sampleX "''/proj/tw.config''"] h1
  have 1: "fst ?c = Inr ()" by auto
  from onChange_handler
         [of "''/proj/src/a.html''" sampleWatching sampleWatcher sampleX _
             "\<lparr>mtimeMs = 5, body = ''<p class=m-1>''\<rparr>"] h2
  have 2: "fst ?a = Inr ()" by auto
  have 3: "fs (snd ?c) ''/proj/tw.config'' = Some \<lparr>mtimeMs = 100, body = ''module.exports = {}''\<rparr>"
    "requireCache (snd ?c) ''/proj/theme.js'' = None"
    "ctx_changedContent (contexts (snd ?c) 0) = []"
    by (simp_all add: handler_defs sample_defs)
  have 4: "ctx_changedContent (contexts (snd ?a) 0) =
             [\<lparr>content = ''<p class=m-1>'', extension = Some ''html''\<rparr>]"
    "map_option mtimeMs (fs (snd ?a) ''/home/u/.tailwindcss/touch/touch-4242-0123456789AB'') = Some 100"
    by (simp_all add: handler_defs sample_defs)
  from 1 2 3 4 show ?thesis by simp
qed

text \<open>
  C10. The handler of an \<^verbatim>\<open>'add'\<close> event makes no test of \<^verbatim>\<open>configDependencies\<close>:
  whenever the added file is readable and the touch file present or creatable, it
  returns, the file's record is the one appended to the context's \<open>changedContent\<close>,
  the touch file is stamped with the current time, and \<^verbatim>\<open>require.cache\<close> and every
  other file are left alone, whether or not the added path is a configuration
  dependency.
\<close>

theorem onAdd_handler:
  "fs s (pathResolve X [''.'', file]) = Some i \<and> touchable X s (w_touchFile w)
   \<longrightarrow> (\<exists>s'. onAdd X w file s = (Inr (), s') \<and>
             ctx_changedContent (contexts s' (w_context w)) =
               ctx_changedContent (contexts s (w_context w)) @
                 [\<lparr>content = body i,
                   extension = Some (drop 1 (pathExtname X (pathResolve X [''.'', file])))\<rparr>] \<and>
             (\<forall>c. c \<noteq> w_context w \<longrightarrow> contexts s' c = contexts s c) \<and>
             readsOf (trace s') = readsOf (trace s) @ [pathResolve X [''.'', file]] \<and>
             requireCache s' = requireCache s \<and>
             (\<exists>j. fs s' (w_touchFile w) = Some j \<and> mtimeMs j = now s \<and>
                  (\<forall>i. fs s (w_touchFile w) = Some i \<longrightarrow>
                       (mtimeMs i < now s \<longrightarrow> mtimeMs i < mtimeMs j))) \<and>
             (\<forall>g. g \<noteq> w_touchFile w \<longrightarrow> fs s' g = fs s g))"
proof
  assume a: "fs s (pathResolve X [''.'', file]) = Some i \<and> touchable X s (w_touchFile w)"
  let ?cf = "pathResolve X [''.'', file]"
  let ?tf = "w_touchFile w"
  let ?s' = "s\<lparr>contexts := (contexts s)
           (w_context w := (contexts s (w_context w))
              \<lparr>ctx_changedContent := ctx_changedContent (contexts s (w_context w)) @
                 [fileEntry X (fs s) ?cf]\<rparr>),
        fs := (fs s)(?tf \<mapsto> touched (fs s ?tf) (now s)),
        trace := trace s @ ReadFile ?cf # Utimes ?tf #
                 (if fs s ?tf = None then [OpenWrite ?tf] else [])\<rparr>"
  from a have r: "onAdd X w file s = (Inr (), ?s')"
    by (simp add: onAdd_def readAndTouch_result)
  have "ctx_changedContent (contexts ?s' (w_context w)) =
                ctx_changedContent (contexts s (w_context w)) @
                  [\<lparr>content = body i, extension = Some (drop 1 (pathExtname X ?cf))\<rparr>]"
    using a by (simp add: fileEntry_def)
  moreover have "\<forall>c. c \<noteq> w_context w \<longrightarrow> contexts ?s' c = contexts s c" by simp
  moreover have "readsOf (trace ?s') = readsOf (trace s) @ [?cf]" by (simp add: readsOf_append)
  moreover have "requireCache ?s' = requireCache s" by simp
  moreover have "\<exists>j. fs ?s' ?tf = Some j \<and> mtimeMs j = now s \<and>
                   (\<forall>i. fs s ?tf = Some i \<longrightarrow> (mtimeMs i < now s \<longrightarrow> mtimeMs i < mtimeMs j))"
    by (simp add: touched_props)
  moreover have "\<forall>g. g \<noteq> ?tf \<longrightarrow> fs ?s' g = fs s g" by simp
  ultimately show "\<exists>s'. onAdd X w file s = (Inr (), s') \<and>
             ctx_changedContent (contexts s' (w_context w)) =
               ctx_changedContent (contexts s (w_context w)) @
                 [\<lparr>content = body i,
                   extension = Some (drop 1 (pathExtname X (pathResolve X [''.'', file])))\<rparr>] \<and>
             (\<forall>c. c \<noteq> w_context w \<longrightarrow> contexts s' c = contexts s c) \<and>
             readsOf (trace s') = readsOf (trace s) @ [pathResolve X [''.'', file]] \<and>
             requireCache s' = requireCache s \<and>
             (\<exists>j. fs s' (w_touchFile w) = Some j \<and> mtimeMs j = now s \<and>
                  (\<forall>i. fs s (w_touchFile w) = Some i \<longrightarrow>
                       (mtimeMs i < now s \<longrightarrow> mtimeMs i < mtimeMs j))) \<and>
             (\<forall>g. g \<noteq> w_touchFile w \<longrightarrow> fs s' g = fs s g)"
    using r by blast
qed

theorem onAdd_handler_witness:
  "''/proj/theme.js'' \<in> set (configDependenciesOf sampleWatching (w_context sampleWatcher)) \<and>
   fst (onAdd sampleX sampleWatcher ''/proj/theme.js'' sampleWatching) = Inr () \<and>
   ctx_changedContent
     (contexts (snd (onAdd sampleX sampleWatcher ''/proj/theme.js'' sampleWatching)) 0) =
     [\<lparr>content = ''{}'', extension = Some ''js''\<rparr>] \<and>
   map_option mtimeMs
     (fs (snd (onAdd sampleX sampleWatcher ''/proj/theme.js'' sampleWatching))
        ''/home/u/.tailwindcss/touch/touch-4242-0123456789AB'') = Some 100 \<and>
   fs (snd (onAdd sampleX sampleWatcher ''/proj/theme.js'' sampleWatching)) ''/proj/tw.config'' =
     Some \<lparr>mtimeMs = 10, body = ''module.exports = {}''\<rparr>"
proof -
  let ?a = "onAdd sampleX sampleWatcher ''/proj/theme.js'' sampleWatching"
  have h: "fs sampleWatching (pathResolve sampleX [''.'', ''/proj/theme.js'']) =
      Some \<lparr>mtimeMs = 20, body = ''{}''\<rparr> \<and>
    touchable sampleX sampleWatching (w_touchFile sampleWatcher)"
    by (simp add: handler_defs sample_defs)
  from onAdd_handler [of sampleWatching sampleX "''/proj/theme.js''"
                         "\<lparr>mtimeMs = 20, body = ''{}''\<rparr>" sampleWatcher] h
  have 1: "fst ?a = Inr ()" by auto
  have 2: "''/proj/theme.js'' \<in> set (configDependenciesOf sampleWatching (w_context sampleWatcher))"
    "ctx_changedContent (contexts (snd ?a) 0) = [\<lparr>content = ''{}'', extension = Some ''js''\<rparr>]"
    "map_option mtimeMs (fs (snd ?a) ''/home/u/.tailwindcss/touch/touch-4242-0123456789AB'') = Some 100"
    "fs (snd ?a) ''/proj/tw.config'' = Some \<lparr>mtimeMs = 10, body = ''module.exports = {}''\<rparr>"
    by (simp_all add: handler_defs sample_defs)
  from 1 2 show ?thesis by simp
qed

section \<open>The entry points\<close>

subsection \<open>The loops of the entry points\<close>

lemma foldl_registerCandidate:
  "foldl (registerCandidate X) s cands =
     s\<lparr>trace := trace s @
          map (\<lambda>g. if isGlob X g
                    then RegisterDependency (Some (pathResolve X [globParent X g]))
                           (Some (if env_ROLLUP_WATCH X = Some ''true'' then ''dependency''
                                  else ''dir-dependency''))
                    else RegisterDependency (Some (pathResolve X [g])) None) cands\<rparr>"
proof (induction cands arbitrary: s)
  case Nil
  then show ?case by simp
next
  case (Cons g cands)
  show ?case
    unfolding foldl_Cons Cons.IH
    by (simp add: registerCandidate_def registerDependency_def logEvent_def)
qed

lemma foldl_registerDependency:
  "foldl (\<lambda>s file. registerDependency (f file) None s) s ds =
     s\<lparr>trace := trace s @ map (\<lambda>file. RegisterDependency (f file) None) ds\<rparr>"
proof (induction ds arbitrary: s)
  case Nil
  then show ?case by simp
next
  case (Cons d ds)
  show ?case
    unfolding foldl_Cons Cons.IH
    by (simp add: registerDependency_def logEvent_def)
qed

lemma foldl_pushChanged:
  "foldl (\<lambda>s entry. pushChanged c entry s) s es =
     s\<lparr>contexts := (contexts s)
          (c := (contexts s c)\<lparr>ctx_changedContent := ctx_changedContent (contexts s c) @ es\<rparr>)\<rparr>"
proof (induction es arbitrary: s)
  case Nil
  then show ?case by simp
next
  case (Cons e es)
  show ?case
    unfolding foldl_Cons Cons.IH
    by (auto simp: pushChanged_def fun_eq_iff)
qed

lemma readsOf_map_Register [simp]:
  "readsOf (map (\<lambda>x. RegisterDependency (f x) (g x)) xs) = []"
  by (induction xs) simp_all

lemma readsOf_map_if_Register [simp]:
  "readsOf (map (\<lambda>x. if P x then RegisterDependency (f x) (g x)
                      else RegisterDependency (f' x) (g' x)) xs) = []"
  by (induction xs) simp_all

subsection \<open>The context cache\<close>

lemma closeWatcher_funpow:
  "\<exists>wo tr. (closeWatcher wid ^^ n) s = s\<lparr>watcherObjects := wo, trace := trace s @ tr\<rparr> \<and>
           readsOf tr = []"
proof (induction n)
  case 0
  have "s = s\<lparr>watcherObjects := watcherObjects s, trace := trace s @ []\<rparr>" by simp
  then show ?case by (metis funpow_0 readsOf.simps(1))
next
  case (Suc n)
  then obtain wo tr where
    h: "(closeWatcher wid ^^ n) s = s\<lparr>watcherObjects := wo, trace := trace s @ tr\<rparr>" "readsOf tr = []"
    by blast
  have "(closeWatcher wid ^^ Suc n) s =
          s\<lparr>watcherObjects := wo(wid := (wo wid)\<lparr>w_closed := True\<rparr>),
            trace := trace s @ (tr @ [WatcherClose wid])\<rparr>"
    by (simp add: h closeWatcher_def logEvent_def)
  moreover have "readsOf (tr @ [WatcherClose wid]) = []"
    by (simp add: readsOf_append h)
  ultimately show ?case by blast
qed

lemma runDisposables_frame:
  "\<exists>wo tr. runDisposables old s = s\<lparr>watcherObjects := wo, trace := trace s @ tr\<rparr> \<and>
           readsOf tr = []"
proof (cases "watchers s old")
  case None
  have "s = s\<lparr>watcherObjects := watcherObjects s, trace := trace s @ []\<rparr>" by simp
  with None show ?thesis unfolding runDisposables_def by (metis option.simps(4) readsOf.simps(1))
next
  case (Some wid)
  with closeWatcher_funpow [where wid = wid and n = "ctx_disposables (contexts s old)" and s = s]
  show ?thesis
    unfolding runDisposables_def by simp
qed

text \<open>A context the cache hands out for the identity it holds: nothing changes.\<close>

lemma getContext_hit:
  "contextMap s (opts_from result) = Some (h, deps, c) \<Longrightarrow>
   getContext D root result (Some cfg) up (Some h) deps s = (Inr (c, False), s)"
  by (simp add: getContext_def)

text \<open>
  Every request that returns leaves the identity it was given on the source's entry;
  a context that is not new leaves the state as it was; a new one is the next
  identity, empty.
\<close>

lemma getContext_Inr:
  assumes "getContext D root result cfgO up hO deps s = (Inr (c, isNew), s')"
  shows "\<exists>cfg h wo tr.
           cfgO = Some cfg \<and> hO = Some h \<and> readsOf tr = [] \<and>
           (if isNew
            then c = nextContext s \<and>
                 s' = s\<lparr>watcherObjects := wo, trace := trace s @ tr,
                        contexts := (contexts s)
                          (c := \<lparr>ctx_tailwindConfig = cfg, ctx_changedContent = [],
                                 ctx_disposables = 0\<rparr>),
                        fileModifiedMaps := (fileModifiedMaps s)(c := Map.empty),
                        nextContext := Suc c,
                        contextMap := (contextMap s)(opts_from result \<mapsto> (h, deps, c))\<rparr>
            else s' = s \<and> contextMap s (opts_from result) = Some (h, deps, c))"
proof -
  from assms obtain cfg h where o: "cfgO = Some cfg" "hO = Some h"
    unfolding getContext_def by (auto split: option.splits)
  show ?thesis
  proof (cases "contextMap s (opts_from result)")
    case None
    have e: "s = s\<lparr>watcherObjects := watcherObjects s, trace := trace s @ []\<rparr>" by simp
    from assms o None have "isNew" "c = nextContext s"
      "s' = s\<lparr>contexts := (contexts s)
                          (c := \<lparr>ctx_tailwindConfig = cfg, ctx_changedContent = [],
                                 ctx_disposables = 0\<rparr>),
                        fileModifiedMaps := (fileModifiedMaps s)(c := Map.empty),
                        nextContext := Suc c,
                        contextMap := (contextMap s)(opts_from result \<mapsto> (h, deps, c))\<rparr>"
      unfolding getContext_def createContext_def by (auto simp: Let_def)
    then have "isNew \<and> c = nextContext s \<and>
       s' = s\<lparr>watcherObjects := watcherObjects s, trace := trace s @ [],
                        contexts := (contexts s)
                          (c := \<lparr>ctx_tailwindConfig = cfg, ctx_changedContent = [],
                                 ctx_disposables = 0\<rparr>),
                        fileModifiedMaps := (fileModifiedMaps s)(c := Map.empty),
                        nextContext := Suc c,
                        contextMap := (contextMap s)(opts_from result \<mapsto> (h, deps, c))\<rparr>"
      by simp
    with o show ?thesis by (metis readsOf.simps(1))
  next
    case (Some e)
    obtain h0 deps0 c0 where e: "e = (h0, deps0, c0)" by (cases e)
    show ?thesis
    proof (cases "h0 = h \<and> deps0 = deps")
      case True
      with assms o Some e have "\<not> isNew" "s' = s" "c = c0"
        unfolding getContext_def by auto
      with o Some e True show ?thesis
        by (intro exI [of _ cfg] exI [of _ h] exI [of _ "watcherObjects s"] exI [of _ "[]"]) simp
    next
      case False
      from runDisposables_frame [of c0 s] obtain wo tr where
        rd: "runDisposables c0 s = s\<lparr>watcherObjects := wo, trace := trace s @ tr\<rparr>"
        and tr: "readsOf tr = []"
        by blast
      have step: "getContext D root result cfgO up hO deps s =
          (case createContext cfg (runDisposables c0 s) of (c, s1) \<Rightarrow>
             (Inr (c, True),
              s1\<lparr>contextMap := (contextMap s1)(opts_from result \<mapsto> (h, deps, c))\<rparr>))"
        using o Some e False by (auto simp: getContext_def)
      from assms have "isNew" "c = nextContext s"
        "s' = s\<lparr>watcherObjects := wo, trace := trace s @ tr,
                        contexts := (contexts s)
                          (c := \<lparr>ctx_tailwindConfig = cfg, ctx_changedContent = [],
                                 ctx_disposables = 0\<rparr>),
                        fileModifiedMaps := (fileModifiedMaps s)(c := Map.empty),
                        nextContext := Suc c,
                        contextMap := (contextMap s)(opts_from result \<mapsto> (h, deps, c))\<rparr>"
        unfolding step rd createContext_def by (auto simp: Let_def)
      with o tr show ?thesis by auto
    qed
  qed
qed

lemma getContext_contextMap:
  assumes "getContext D root result cfgO up hO deps s = (Inr (c, isNew), s')"
  shows "\<exists>h. hO = Some h \<and> contextMap s' (opts_from result) = Some (h, deps, c)"
  using getContext_Inr [OF assms] by (cases isNew) auto

subsection \<open>The candidate files\<close>

lemma getCandidateFiles_Inr:
  assumes "getCandidateFiles X c up cfg s = (Inr cands, s')"
  shows "s' = s\<lparr>candidateFilesCache := (candidateFilesCache s)(c \<mapsto> cands)\<rparr>"
  using assms unfolding getCandidateFiles_def
  by (auto simp: Let_def split: option.splits sum.splits intro!: state.equality)

lemma getCandidateFilesW_Inr:
  assumes "getCandidateFilesW X c up cfg s = (Inr cands, s')"
  shows "s' = s\<lparr>candidateFilesCacheW := (candidateFilesCacheW s)(c \<mapsto> cands)\<rparr>"
  using assms unfolding getCandidateFilesW_def
  by (auto simp: Let_def split: option.splits sum.splits intro!: state.equality)

lemma getCandidateFiles_cached:
  "candidateFilesCache s c = Some cands \<Longrightarrow> getCandidateFiles X c up cfg s = (Inr cands, s)"
  by (simp add: getCandidateFiles_def)

subsection \<open>The build-mode entry point, step by step\<close>

lemma setupTrackingContext_Inr:
  assumes "setupTrackingContext X cop D result root s = (Inr c, s')"
  shows "\<exists>cfg up h ds s1 isNew s2 cands s3.
     getTailwindConfig X cop s = (Inr (Some cfg, up, Some h, Some ds), s1) \<and>
     getContext D root result (Some cfg) up (Some h)
       (collectContextDependencies (map Some ds) D result) s1 = (Inr (c, isNew), s2) \<and>
     getCandidateFiles X c up cfg s2 = (Inr cands, s3) \<and>
     (if D = {}
      then s' = foldl (\<lambda>s file. registerDependency (Some file) None s) s3 ds
      else \<exists>cc s4.
             resolvedChangedContent X c cands c (foldl (registerCandidate X) s3 cands) = (Inr cc, s4) \<and>
             s' = foldl (\<lambda>s file. registerDependency (Some file) None s)
                    (foldl (\<lambda>s entry. pushChanged c entry s) s4 cc) ds)"
proof -
  obtain r s1 where g: "getTailwindConfig X cop s = (r, s1)"
    by (cases "getTailwindConfig X cop s")
  from assms g obtain cfgO up hO dsO where r: "r = Inr (cfgO, up, hO, dsO)"
    unfolding setupTrackingContext_def by (cases r) (auto split: prod.splits)
  let ?deps = "collectContextDependencies (case dsO of None \<Rightarrow> [] | Some ds \<Rightarrow> map Some ds) D result"
  obtain rc s2 where gc: "getContext D root result cfgO up hO ?deps s1 = (rc, s2)"
    by (cases "getContext D root result cfgO up hO ?deps s1")
  from assms g r gc obtain isNew where rc: "rc = Inr (c, isNew)"
    unfolding setupTrackingContext_def
    by (cases rc) (auto split: prod.splits option.splits sum.splits if_splits)
  from getContext_Inr [OF gc [unfolded rc]] obtain cfg h where o: "cfgO = Some cfg" "hO = Some h"
    by blast
  obtain rf s3 where gf: "getCandidateFiles X c up cfg s2 = (rf, s3)"
    by (cases "getCandidateFiles X c up cfg s2")
  from assms g r gc rc o gf obtain cands where rf: "rf = Inr cands"
    unfolding setupTrackingContext_def
    by (cases rf) (auto split: prod.splits option.splits sum.splits if_splits)
  from assms g r gc rc o gf rf obtain ds where ds: "dsO = Some ds"
    unfolding setupTrackingContext_def
    by (cases dsO) (auto split: prod.splits option.splits sum.splits if_splits)
  have "if D = {}
      then s' = foldl (\<lambda>s file. registerDependency (Some file) None s) s3 ds
      else \<exists>cc s4.
             resolvedChangedContent X c cands c (foldl (registerCandidate X) s3 cands) = (Inr cc, s4) \<and>
             s' = foldl (\<lambda>s file. registerDependency (Some file) None s)
                    (foldl (\<lambda>s entry. pushChanged c entry s) s4 cc) ds"
    using assms g r gc rc o gf rf ds
    unfolding setupTrackingContext_def getFileModifiedMap_def
    by (auto split: prod.splits sum.splits if_splits)
  with g r gc rc o gf rf ds show ?thesis by auto
qed

subsection \<open>The watch-mode entry point, step by step\<close>

lemma setupWatchingContext_Inr:
  assumes "setupWatchingContext X cop D result root s = (Inr c, s')"
  shows "\<exists>cfg up h ds s1 isNew s2 cands s3 s9.
     getTailwindConfigW X cop s = (Inr (Some cfg, up, Some h, ds), s1) \<and>
     getContext D root result (Some cfg) up (Some h)
       (collectContextDependencies ds D result) s1 = (Inr (c, isNew), s2) \<and>
     getCandidateFilesW X c up cfg s2 = (Inr cands, s3) \<and>
     prepareWatcher X cop c isNew cands ds s3 = (Inr (), s9) \<and>
     (if D = {} then s' = s9
      else \<exists>cc s10.
             resolvedChangedContentW X c cands s9 = (Inr cc, s10) \<and>
             s' = foldl (\<lambda>s entry. pushChanged c entry s) s10 cc)"
proof -
  obtain r s1 where g: "getTailwindConfigW X cop s = (r, s1)"
    by (cases "getTailwindConfigW X cop s")
  from assms g obtain cfgO up hO ds where r: "r = Inr (cfgO, up, hO, ds)"
    unfolding setupWatchingContext_def by (cases r) (auto split: prod.splits)
  let ?deps = "collectContextDependencies ds D result"
  obtain rc s2 where gc: "getContext D root result cfgO up hO ?deps s1 = (rc, s2)"
    by (cases "getContext D root result cfgO up hO ?deps s1")
  from assms g r gc have "\<exists>c' isNew. rc = Inr (c', isNew)"
    unfolding setupWatchingContext_def
    by (cases rc) (auto split: prod.splits)
  then obtain c' isNew where rc: "rc = Inr (c', isNew)" by blast
  from getContext_Inr [OF gc [unfolded rc]] obtain cfg h where o: "cfgO = Some cfg" "hO = Some h"
    by blast
  obtain rf s3 where gf: "getCandidateFilesW X c' up cfg s2 = (rf, s3)"
    by (cases "getCandidateFilesW X c' up cfg s2")
  from assms g r gc rc o gf obtain cands where rf: "rf = Inr cands"
    unfolding setupWatchingContext_def
    by (cases rf) (auto split: prod.splits)
  obtain rp s9 where gp: "prepareWatcher X cop c' isNew cands ds s3 = (rp, s9)"
    by (cases "prepareWatcher X cop c' isNew cands ds s3")
  from assms g r gc rc o gf rf gp have rp: "rp = Inr ()"
    unfolding setupWatchingContext_def
    by (cases rp) (auto split: prod.splits)
  have c: "c' = c"
    using assms g r gc rc o gf rf gp rp
    unfolding setupWatchingContext_def
    by (auto split: prod.splits sum.splits if_splits)
  have "if D = {} then s' = s9
      else \<exists>cc s10.
             resolvedChangedContentW X c cands s9 = (Inr cc, s10) \<and>
             s' = foldl (\<lambda>s entry. pushChanged c entry s) s10 cc"
    using assms g r gc rc o gf rf gp rp c
    unfolding setupWatchingContext_def
    by (auto split: prod.splits sum.splits if_splits)
  with g r gc rc o gf rf gp rp c show ?thesis by auto
qed

lemma touch_frame:
  assumes "touch X f s = (r, s')"
  shows "\<exists>fs' tr. s' = s\<lparr>fs := fs', trace := trace s @ tr\<rparr> \<and> readsOf tr = []"
proof (cases "touchable X s f")
  case True
  with assms have "s' = s\<lparr>fs := (fs s)(f \<mapsto> touched (fs s f) (now s)),
                      trace := trace s @ Utimes f # (if fs s f = None then [OpenWrite f] else [])\<rparr>"
    by (simp add: touch_result)
  moreover have "readsOf (Utimes f # (if fs s f = None then [OpenWrite f] else [])) = []" by simp
  ultimately show ?thesis by blast
next
  case False
  with assms have "s' = s\<lparr>fs := fs s, trace := trace s @ [Utimes f, OpenWrite f]\<rparr>"
    by (simp add: touch_result)
  moreover have "readsOf [Utimes f, OpenWrite f] = []" by simp
  ultimately show ?thesis by blast
qed

text \<open>What \<^verbatim>\<open>rebootWatcher\<close> may change: the file system (the touch file), the trace, the
  random source's position, the touch files, the watcher objects and the pending
  callbacks.\<close>

lemma rebootWatcher_frame:
  assumes "rebootWatcher X c configPath cands s = (r, s')"
  shows "\<exists>fs' tr rp tf wo pe.
           s' = s\<lparr>fs := fs', trace := trace s @ tr, randomPos := rp, touchFiles := tf,
                  watcherObjects := wo, pending := pe\<rparr> \<and> readsOf tr = []"
proof -
  let ?first = "case touchFiles s c of
              Some touchFile \<Rightarrow> (Inr touchFile, s)
            | None \<Rightarrow>
                (case generateTouchFileName X s of (touchFile, s1) \<Rightarrow>
                   (case touch X touchFile (s1\<lparr>touchFiles := (touchFiles s1)(c \<mapsto> touchFile)\<rparr>) of
                      (Inl e, s2) \<Rightarrow> (Inl e, s2)
                    | (Inr _, s2) \<Rightarrow> (Inr touchFile, s2)))"
  obtain r1 s2 where f: "?first = (r1, s2)" by (cases ?first)
  have s2: "\<exists>fs' tr rp tf.
           s2 = s\<lparr>fs := fs', trace := trace s @ tr, randomPos := rp, touchFiles := tf\<rparr> \<and>
           readsOf tr = []"
  proof (cases "touchFiles s c")
    case (Some t)
    with f have "s2 = s" by simp
    then have "s2 = s\<lparr>fs := fs s, trace := trace s @ [], randomPos := randomPos s,
                      touchFiles := touchFiles s\<rparr>" by simp
    then show ?thesis by (metis readsOf.simps(1))
  next
    case None
    obtain name s1 where gen: "generateTouchFileName X s = (name, s1)"
      by (cases "generateTouchFileName X s")
    then have s1: "s1 = s\<lparr>randomPos := randomPos s + randomCharsLength\<rparr>"
      by (auto simp: generateTouchFileName_def Let_def)
    let ?s1' = "s1\<lparr>touchFiles := (touchFiles s1)(c \<mapsto> name)\<rparr>"
    obtain rt st where t: "touch X name ?s1' = (rt, st)" by (cases "touch X name ?s1'")
    from touch_frame [OF t] obtain fs' tr where
      st: "st = ?s1'\<lparr>fs := fs', trace := trace ?s1' @ tr\<rparr>" "readsOf tr = []" by blast
    from f None gen t have "s2 = st" by (auto split: sum.splits)
    with st s1 have "s2 = s\<lparr>fs := fs', trace := trace s @ tr,
                             randomPos := randomPos s + randomCharsLength,
                             touchFiles := (touchFiles s)(c \<mapsto> name)\<rparr>"
      by simp
    with st(2) show ?thesis by blast
  qed
  then obtain fs' tr rp tf where
    s2e: "s2 = s\<lparr>fs := fs', trace := trace s @ tr, randomPos := rp, touchFiles := tf\<rparr>"
    and tr: "readsOf tr = []" by blast
  have r: "rebootWatcher X c configPath cands s =
     (case (r1, s2) of
        (Inl e, s2) \<Rightarrow> (Inl e, s2)
      | (Inr touchFile, s2) \<Rightarrow>
          if env_TAILWIND_MODE X = Some ''build'' then (Inr (), s2)
          else if env_TAILWIND_MODE X = Some ''watch'' \<or>
                  (env_TAILWIND_MODE X = None \<and> env_NODE_ENV X = Some ''development'')
          then
            (let s3 = (case watchers s2 c of None \<Rightarrow> s2 | Some wid \<Rightarrow> closeWatcher wid s2)
             in (Inr (), s3\<lparr>pending := pending s3 @
                   [\<lparr>p_context = c, p_touchFile = touchFile, p_configPath = configPath,
                     p_candidateFiles = cands\<rparr>]\<rparr>))
          else (Inr (), s2))"
    unfolding rebootWatcher_def f ..
  have "s' = s2 \<or>
        (\<exists>pe. s' = s2\<lparr>pending := pe\<rparr>) \<or>
        (\<exists>wid pe. s' = (closeWatcher wid s2)\<lparr>pending := pe\<rparr>)"
    using assms unfolding r
    by (auto simp: Let_def split: sum.splits if_splits option.splits)
  then consider "s' = s2" | pe where "s' = s2\<lparr>pending := pe\<rparr>"
    | wid pe where "s' = (closeWatcher wid s2)\<lparr>pending := pe\<rparr>" by blast
  then show ?thesis
  proof cases
    case 1
    with s2e have "s' = s\<lparr>fs := fs', trace := trace s @ tr, randomPos := rp, touchFiles := tf,
                  watcherObjects := watcherObjects s, pending := pending s\<rparr>" by simp
    with tr show ?thesis by blast
  next
    case 2
    with s2e have "s' = s\<lparr>fs := fs', trace := trace s @ tr, randomPos := rp, touchFiles := tf,
                  watcherObjects := watcherObjects s, pending := pe\<rparr>" by simp
    with tr show ?thesis by blast
  next
    case 3
    with s2e have "s' = s\<lparr>fs := fs', trace := trace s @ (tr @ [WatcherClose wid]),
                  randomPos := rp, touchFiles := tf,
                  watcherObjects := (watcherObjects s)(wid := (watcherObjects s wid)\<lparr>w_closed := True\<rparr>),
                  pending := pe\<rparr>"
      by (simp add: closeWatcher_def logEvent_def)
    moreover have "readsOf (tr @ [WatcherClose wid]) = []" by (simp add: readsOf_append tr)
    ultimately show ?thesis by blast
  qed
qed

text \<open>
  What lines 509-543 may change: besides what \<^verbatim>\<open>rebootWatcher\<close> may change, the
  context's set of configuration dependencies, its memoized configuration path, and
  the count of its disposables. No file is read, and the file system is untouched unless
  the context is new.
\<close>

lemma prepareWatcher_frame:
  assumes "prepareWatcher X cop c isNew cands ds s = (Inr u, s')"
  shows "\<exists>fs' tr rp tf wo pe cd cp.
     s' = s\<lparr>fs := fs', trace := trace s @ tr, randomPos := rp, touchFiles := tf,
            watcherObjects := wo, pending := pe, configDependenciesCache := cd,
            configPaths := cp,
            contexts := (contexts s)
              (c := (contexts s c)\<lparr>ctx_disposables := Suc (ctx_disposables (contexts s c))\<rparr>)\<rparr> \<and>
     readsOf tr = [] \<and> (\<not> isNew \<longrightarrow> fs' = fs s)"
proof -
  let ?ctx = "(contexts s)
              (c := (contexts s c)\<lparr>ctx_disposables := Suc (ctx_disposables (contexts s c))\<rparr>)"
  let ?N = "\<lambda>fs' tr rp tf wo pe cd cp.
     s\<lparr>fs := fs', trace := trace s @ tr, randomPos := rp, touchFiles := tf,
       watcherObjects := wo, pending := pe, configDependenciesCache := cd,
       configPaths := cp, contexts := ?ctx\<rparr>"
  let ?tr4 = "map (\<lambda>file. RegisterDependency file None) ds"
  obtain cd1 where g: "getConfigDependencies c s = s\<lparr>configDependenciesCache := cd1\<rparr>"
  proof (cases "configDependenciesCache s c")
    case None
    then have "getConfigDependencies c s =
                 s\<lparr>configDependenciesCache := (configDependenciesCache s)(c \<mapsto> [])\<rparr>"
      by (simp add: getConfigDependencies_def)
    then show ?thesis by (rule that)
  next
    case (Some a)
    then have "getConfigDependencies c s = s\<lparr>configDependenciesCache := configDependenciesCache s\<rparr>"
      by (simp add: getConfigDependencies_def)
    then show ?thesis by (rule that)
  qed
  let ?s4 = "foldl (\<lambda>s file. registerDependency file None s) (getConfigDependencies c s) ds"
  let ?s5 = "?s4\<lparr>contexts := (contexts ?s4)
                    (c := (contexts ?s4 c)
                       \<lparr>ctx_disposables := Suc (ctx_disposables (contexts ?s4 c))\<rparr>)\<rparr>"
  have s5: "?s5 = ?N (fs s) ?tr4 (randomPos s) (touchFiles s) (watcherObjects s) (pending s) cd1
                    (configPaths s)"
    unfolding foldl_registerDependency g by simp
  obtain configPath s6 where gp: "getConfigPath X c cop ?s5 = (configPath, s6)"
    by (cases "getConfigPath X c cop ?s5")
  have "\<exists>cp1. s6 = ?N (fs s) ?tr4 (randomPos s) (touchFiles s) (watcherObjects s)
                                     (pending s) cd1 cp1"
  proof (cases "configPaths s c")
    case None
    with gp have "s6 = ?N (fs s) ?tr4 (randomPos s) (touchFiles s) (watcherObjects s)
                          (pending s) cd1 ((configPaths s)(c \<mapsto> resolveConfigPath X (fs s) cop))"
      unfolding s5 getConfigPath_def by (auto simp: Let_def)
    then show ?thesis by blast
  next
    case (Some a)
    with gp have "s6 = ?N (fs s) ?tr4 (randomPos s) (touchFiles s) (watcherObjects s)
                          (pending s) cd1 (configPaths s)"
      unfolding s5 getConfigPath_def by (auto simp: Let_def)
    then show ?thesis by blast
  qed
  then obtain cp1 where s6: "s6 = ?N (fs s) ?tr4 (randomPos s) (touchFiles s) (watcherObjects s)
                                     (pending s) cd1 cp1" by blast
  let ?mid = "case configPath of
              None \<Rightarrow> (Inr (), s6)
            | Some cp \<Rightarrow>
                (case getModuleDependencies X (fs s6) cp of
                   None \<Rightarrow> (Inl (ModuleNotFound cp), logEvent (ModuleDependencies cp) s6)
                 | Some files \<Rightarrow>
                     (Inr (), addConfigDependencies c cp files
                                (logEvent (ModuleDependencies cp) s6)))"
  obtain rm s7 where m: "?mid = (rm, s7)" by (cases ?mid)
  have "\<exists>tr cd2. s7 = ?N (fs s) tr (randomPos s) (touchFiles s) (watcherObjects s)
                                     (pending s) cd2 cp1 \<and> readsOf tr = []"
  proof (cases configPath)
    case None
    with m s6 have "s7 = ?N (fs s) ?tr4 (randomPos s) (touchFiles s) (watcherObjects s)
                                     (pending s) cd1 cp1" by simp
    moreover have "readsOf ?tr4 = []" by simp
    ultimately show ?thesis by blast
  next
    case (Some cp)
    have r: "readsOf (?tr4 @ [ModuleDependencies cp]) = []" by (simp add: readsOf_append)
    show ?thesis
    proof (cases "getModuleDependencies X (fs s6) cp")
      case None
      with m Some s6 have "s7 = ?N (fs s) (?tr4 @ [ModuleDependencies cp]) (randomPos s)
                                   (touchFiles s) (watcherObjects s) (pending s) cd1 cp1"
        by (auto simp: logEvent_def)
      with r show ?thesis by blast
    next
      case (Some files)
      let ?cd2 = "(configDependenciesCache (logEvent (ModuleDependencies cp) s6))
          (c \<mapsto> foldl (\<lambda>ds file. if file = cp then ds else setAdd file ds)
                  (configDependenciesOf (logEvent (ModuleDependencies cp) s6) c) files)"
      from m \<open>configPath = Some cp\<close> Some
      have "s7 = addConfigDependencies c cp files (logEvent (ModuleDependencies cp) s6)"
        by simp
      then have "s7 = (logEvent (ModuleDependencies cp) s6)\<lparr>configDependenciesCache := ?cd2\<rparr>"
        by (simp only: addConfigDependencies_def)
      then have "s7 = ?N (fs s) (?tr4 @ [ModuleDependencies cp])
                         (randomPos s) (touchFiles s) (watcherObjects s) (pending s) ?cd2 cp1"
        unfolding s6 by (simp add: logEvent_def)
      with r show ?thesis by blast
    qed
  qed
  then obtain tr7 cd2 where s7: "s7 = ?N (fs s) tr7 (randomPos s) (touchFiles s) (watcherObjects s)
                                     (pending s) cd2 cp1" and tr7: "readsOf tr7 = []"
    by blast
  let ?rb = "if isNew then rebootWatcher X c configPath cands s7 else (Inr (), s7)"
  obtain rr s8 where rb: "?rb = (rr, s8)" by (cases ?rb)
  have "\<exists>fs' tr rp tf wo pe. s8 = ?N fs' tr rp tf wo pe cd2 cp1 \<and> readsOf tr = [] \<and>
          (\<not> isNew \<longrightarrow> fs' = fs s)"
  proof (cases isNew)
    case False
    with rb have "s8 = s7" by simp
    with s7 tr7 False show ?thesis by blast
  next
    case True
    with rb have "rebootWatcher X c configPath cands s7 = (rr, s8)" by simp
    from rebootWatcher_frame [OF this] obtain fs' tr rp tf wo pe where
      f: "s8 = s7\<lparr>fs := fs', trace := trace s7 @ tr, randomPos := rp, touchFiles := tf,
                  watcherObjects := wo, pending := pe\<rparr>" and tr: "readsOf tr = []"
      by blast
    from f s7 have "s8 = ?N fs' (tr7 @ tr) rp tf wo pe cd2 cp1" by simp
    moreover have "readsOf (tr7 @ tr) = []" by (simp add: readsOf_append tr7 tr)
    ultimately show ?thesis using True by blast
  qed
  then obtain fs8 tr8 rp8 tf8 wo8 pe8 where
    s8: "s8 = ?N fs8 tr8 rp8 tf8 wo8 pe8 cd2 cp1" and tr8: "readsOf tr8 = []"
    and fs8: "\<not> isNew \<longrightarrow> fs8 = fs s"
    by blast
  have final: "prepareWatcher X cop c isNew cands ds s =
     (case (rm, s7) of
        (Inl e, s7) \<Rightarrow> (Inl e, s7)
      | (Inr _, s7) \<Rightarrow>
          (case (if isNew then rebootWatcher X c configPath cands s7 else (Inr (), s7)) of
             (Inl e, s8) \<Rightarrow> (Inl e, s8)
           | (Inr _, s8) \<Rightarrow>
               (Inr (), (case touchFiles s8 c of
                           None \<Rightarrow> s8
                         | Some touchFile \<Rightarrow>
                             if touchFile \<noteq> [] then registerDependency (Some touchFile) None s8
                             else s8))))"
    unfolding prepareWatcher_def Let_def gp prod.case m ..
  have rmI: "rm = Inr ()"
    using assms unfolding final by (cases rm) auto
  have final2: "prepareWatcher X cop c isNew cands ds s =
     (case (rr, s8) of
        (Inl e, s8) \<Rightarrow> (Inl e, s8)
      | (Inr _, s8) \<Rightarrow>
          (Inr (), (case touchFiles s8 c of
                      None \<Rightarrow> s8
                    | Some touchFile \<Rightarrow>
                        if touchFile \<noteq> [] then registerDependency (Some touchFile) None s8
                        else s8)))"
    by (simp add: final rmI rb)
  from assms have "s' = s8 \<or> (\<exists>t. s' = registerDependency (Some t) None s8)"
    unfolding final2
    by (cases rr) (auto split: option.splits if_splits)
  then show ?thesis
  proof
    assume "s' = s8"
    with s8 tr8 fs8 show ?thesis by blast
  next
    assume "\<exists>t. s' = registerDependency (Some t) None s8"
    then obtain t where "s' = registerDependency (Some t) None s8" by blast
    with s8 have "s' = ?N fs8 (tr8 @ [RegisterDependency (Some t) None]) rp8 tf8 wo8 pe8 cd2 cp1"
      by (simp add: registerDependency_def logEvent_def)
    moreover have "readsOf (tr8 @ [RegisterDependency (Some t) None]) = []"
      by (simp add: readsOf_append tr8)
    ultimately show ?thesis using fs8 by blast
  qed
qed

subsection \<open>The scans, in closed form\<close>

lemma readLoop_Inr:
  "readLoop X files acc s = (Inr r, s') \<Longrightarrow> \<forall>f\<in>set files. fs s f \<noteq> None"
proof (induction files arbitrary: acc s)
  case Nil
  then show ?case by simp
next
  case (Cons f rest)
  from Cons.prems obtain i where i: "fs s f = Some i"
    by (auto simp: readFileSync_def split: option.splits)
  from Cons.prems i have
    "readLoop X rest (acc @ [\<lparr>content = body i, extension = Some (drop 1 (pathExtname X f))\<rparr>])
       (logEvent (ReadFile f) s) = (Inr r, s')"
    by (simp add: readFileSync_def)
  from Cons.IH [OF this] have "\<forall>x\<in>set rest. fs s x \<noteq> None"
    by (simp add: logEvent_def)
  with i show ?case by simp
qed

lemma resolvedChangedContent_Inr:
  assumes a: "resolvedChangedContent X c cands m s = (Inr cc, s')"
  shows "\<exists>items.
     purgeContent (ctx_tailwindConfig (contexts s c)) = Inr items \<and>
     (\<forall>f\<in>set (fastGlobSync X (fs s) cands). fs s f \<noteq> None) \<and>
     cc = rawItems items @
          map (fileEntry X (fs s))
            (foldl (\<lambda>a f. setAdd f a) []
               (filter (newerFile (fs s) (fileModifiedMaps s m)) (fastGlobSync X (fs s) cands))) \<and>
     s' = s\<lparr>fileModifiedMaps :=
              (fileModifiedMaps s)
                (m := updatedMap (fs s) (fileModifiedMaps s m) (fastGlobSync X (fs s) cands)),
            trace := trace s @ (if env_DEBUG X then [ConsoleTime] else []) @
                     Glob cands # map Stat (fastGlobSync X (fs s) cands) @
                     (if env_DEBUG X then [ConsoleTimeEnd] else []) @
                     map ReadFile
                       (foldl (\<lambda>a f. setAdd f a) []
                          (filter (newerFile (fs s) (fileModifiedMaps s m))
                             (fastGlobSync X (fs s) cands)))\<rparr>"
proof -
  from resolvedChangedContent_props [OF a] obtain items changedFiles s1 where
    b: "purgeContent (ctx_tailwindConfig (contexts s c)) = Inr items"
       "resolveChangedFiles X cands m s = (Inr changedFiles, s1)"
       "cc = rawItems items @ map (fileEntry X (fs s)) changedFiles"
       "s' = s1\<lparr>trace := trace s1 @ map ReadFile changedFiles\<rparr>"
    by blast
  have ex: "\<forall>f\<in>set (fastGlobSync X (fs s) cands). fs s f \<noteq> None"
    using resolveChangedFiles_Inr [OF b(2)] .
  from b(2) resolveChangedFiles_ok [OF ex, of m]
  have "changedFiles = foldl (\<lambda>a f. setAdd f a) []
               (filter (newerFile (fs s) (fileModifiedMaps s m)) (fastGlobSync X (fs s) cands))"
    and "s1 = s\<lparr>fileModifiedMaps :=
              (fileModifiedMaps s)
                (m := updatedMap (fs s) (fileModifiedMaps s m) (fastGlobSync X (fs s) cands)),
            trace := trace s @ (if env_DEBUG X then [ConsoleTime] else []) @
                     Glob cands # map Stat (fastGlobSync X (fs s) cands) @
                     (if env_DEBUG X then [ConsoleTimeEnd] else [])\<rparr>"
    by simp_all
  with b ex show ?thesis by simp
qed

lemma resolvedChangedContentW_Inr:
  assumes a: "resolvedChangedContentW X c cands s = (Inr cc, s')"
  shows "\<exists>items.
     purgeContent (ctx_tailwindConfig (contexts s c)) = Inr items \<and>
     (if c \<in> scannedContentCache s
      then cc = rawItems items \<and> s' = s
      else cc = rawItems items @
                map (fileEntry X (fs s))
                  (foldl (\<lambda>a f. setAdd f a) [] (fastGlobSync X (fs s) cands)) \<and>
           s' = s\<lparr>scannedContentCache := insert c (scannedContentCache s),
                  trace := trace s @ Glob cands #
                           map ReadFile
                             (foldl (\<lambda>a f. setAdd f a) [] (fastGlobSync X (fs s) cands))\<rparr>)"
proof -
  from a obtain items where items: "purgeContent (ctx_tailwindConfig (contexts s c)) = Inr items"
    unfolding resolvedChangedContentW_def by (auto split: sum.splits)
  show ?thesis
  proof (cases "c \<in> scannedContentCache s")
    case True
    with a items show ?thesis
      unfolding resolvedChangedContentW_def resolveChangedFilesW_def by simp
  next
    case False
    let ?files = "foldl (\<lambda>a f. setAdd f a) [] (fastGlobSync X (fs s) cands)"
    let ?s1 = "(logEvent (Glob cands) s)\<lparr>scannedContentCache := insert c (scannedContentCache s)\<rparr>"
    from a items False have r: "readLoop X ?files (rawItems items) ?s1 = (Inr cc, s')"
      unfolding resolvedChangedContentW_def resolveChangedFilesW_def by simp
    from readLoop_Inr [OF r] have ex: "\<forall>f\<in>set ?files. fs ?s1 f \<noteq> None" .
    from r readLoop_ok [OF ex, of X "rawItems items"] False items show ?thesis
      by (simp add: logEvent_def)
  qed
qed

section \<open>The identity of a context\<close>

text \<open>
  C2 (as stated, it fails). With an empty directive set the build-mode entry point
  still hands the configuration dependencies to the context cache: the entry of the
  sample stylesheet carries both files of the configuration.
\<close>

theorem contextDependencies_counterexample:
  "fst (setupTrackingContext sampleX (ArgString ''/proj/tw.config'') {} sampleResult 0 sampleState) =
     Inr 0 \<and>
   contextMap
     (snd (setupTrackingContext sampleX (ArgString ''/proj/tw.config'') {} sampleResult 0 sampleState))
     (Some ''/proj/app.css'') =
     Some (''h1'', {Some ''/proj/tw.config'', Some ''/proj/theme.js''}, 0)"
  by (simp add: setupTrackingContext_def getTailwindConfig_def getContext_def createContext_def
        getCandidateFiles_def purgeContent_def collectContextDependencies_def
        registerDependency_def sampleResult_def sample_defs)
     auto

text \<open>
  C2, amended. In both modes a request that returns leaves, on the source's entry of
  the context cache, the hash of the configuration and this dependency set: with an
  empty directive set, exactly the configuration dependencies the loader returned;
  with directives, those together with the source file and the files of the source's
  dependency messages. So the identity of a source without directives leaves out the
  source file and what the source imports (and, like every identity, the content
  files), but not the configuration dependencies.
\<close>

theorem contextDependencies_identity:
  "(setupTrackingContext X configOrPath D result root s = (Inr c, s') \<longrightarrow>
      (\<exists>cfg up h ds s1.
          getTailwindConfig X configOrPath s = (Inr (Some cfg, up, Some h, Some ds), s1) \<and>
          contextMap s' (opts_from result) =
            Some (h,
                  (if D = {} then Some ` set ds
                   else Some ` set ds \<union> {opts_from result} \<union>
                        {m_file m |m. m \<in> set (messages result) \<and> m_type m = ''dependency''}),
                  c)))
   \<and>
   (setupWatchingContext X configOrPath D result root t = (Inr cw, t') \<longrightarrow>
      (\<exists>cfg up h ds t1.
          getTailwindConfigW X configOrPath t = (Inr (Some cfg, up, Some h, ds), t1) \<and>
          contextMap t' (opts_from result) =
            Some (h,
                  (if D = {} then set ds
                   else set ds \<union> {opts_from result} \<union>
                        {m_file m |m. m \<in> set (messages result) \<and> m_type m = ''dependency''}),
                  cw)))"
proof (rule conjI; rule impI)
  assume a: "setupTrackingContext X configOrPath D result root s = (Inr c, s')"
  from setupTrackingContext_Inr [OF a] obtain cfg up h ds s1 isNew s2 cands s3 where
    g: "getTailwindConfig X configOrPath s = (Inr (Some cfg, up, Some h, Some ds), s1)"
    and gc: "getContext D root result (Some cfg) up (Some h)
       (collectContextDependencies (map Some ds) D result) s1 = (Inr (c, isNew), s2)"
    and gf: "getCandidateFiles X c up cfg s2 = (Inr cands, s3)"
    and rest: "if D = {}
      then s' = foldl (\<lambda>s file. registerDependency (Some file) None s) s3 ds
      else \<exists>cc s4.
             resolvedChangedContent X c cands c (foldl (registerCandidate X) s3 cands) = (Inr cc, s4) \<and>
             s' = foldl (\<lambda>s file. registerDependency (Some file) None s)
                    (foldl (\<lambda>s entry. pushChanged c entry s) s4 cc) ds"
    by blast
  from getContext_contextMap [OF gc]
  have m2: "contextMap s2 (opts_from result) =
              Some (h, collectContextDependencies (map Some ds) D result, c)" by simp
  have m3: "contextMap s3 = contextMap s2"
    using getCandidateFiles_Inr [OF gf] by simp
  have m': "contextMap s' = contextMap s3"
  proof (cases "D = {}")
    case True
    with rest show ?thesis by (simp add: foldl_registerDependency)
  next
    case False
    with rest obtain cc s4 where
      r: "resolvedChangedContent X c cands c (foldl (registerCandidate X) s3 cands) = (Inr cc, s4)"
      and s': "s' = foldl (\<lambda>s file. registerDependency (Some file) None s)
                    (foldl (\<lambda>s entry. pushChanged c entry s) s4 cc) ds"
      by auto
    from resolvedChangedContent_Inr [OF r] have "contextMap s4 = contextMap s3"
      by (auto simp: foldl_registerCandidate)
    with s' show ?thesis by (simp add: foldl_registerDependency foldl_pushChanged)
  qed
  have "collectContextDependencies (map Some ds) D result =
          (if D = {} then Some ` set ds
           else Some ` set ds \<union> {opts_from result} \<union>
                {m_file m |m. m \<in> set (messages result) \<and> m_type m = ''dependency''})"
    by (auto simp: collectContextDependencies_def)
  with g m2 m3 m' show "\<exists>cfg up h ds s1.
          getTailwindConfig X configOrPath s = (Inr (Some cfg, up, Some h, Some ds), s1) \<and>
          contextMap s' (opts_from result) =
            Some (h,
                  (if D = {} then Some ` set ds
                   else Some ` set ds \<union> {opts_from result} \<union>
                        {m_file m |m. m \<in> set (messages result) \<and> m_type m = ''dependency''}),
                  c)"
    by auto
next
  assume a: "setupWatchingContext X configOrPath D result root t = (Inr cw, t')"
  from setupWatchingContext_Inr [OF a] obtain cfg up h ds s1 isNew s2 cands s3 s9 where
    g: "getTailwindConfigW X configOrPath t = (Inr (Some cfg, up, Some h, ds), s1)"
    and gc: "getContext D root result (Some cfg) up (Some h)
       (collectContextDependencies ds D result) s1 = (Inr (cw, isNew), s2)"
    and gf: "getCandidateFilesW X cw up cfg s2 = (Inr cands, s3)"
    and pw: "prepareWatcher X configOrPath cw isNew cands ds s3 = (Inr (), s9)"
    and rest: "if D = {} then t' = s9
      else \<exists>cc s10.
             resolvedChangedContentW X cw cands s9 = (Inr cc, s10) \<and>
             t' = foldl (\<lambda>s entry. pushChanged cw entry s) s10 cc"
    by blast
  from getContext_contextMap [OF gc]
  have m2: "contextMap s2 (opts_from result) =
              Some (h, collectContextDependencies ds D result, cw)" by simp
  have m3: "contextMap s3 = contextMap s2"
    using getCandidateFilesW_Inr [OF gf] by simp
  have m9: "contextMap s9 = contextMap s3"
    using prepareWatcher_frame [OF pw] by auto
  have m': "contextMap t' = contextMap s9"
  proof (cases "D = {}")
    case True
    with rest show ?thesis by simp
  next
    case False
    with rest obtain cc s10 where
      r: "resolvedChangedContentW X cw cands s9 = (Inr cc, s10)"
      and t': "t' = foldl (\<lambda>s entry. pushChanged cw entry s) s10 cc"
      by auto
    from resolvedChangedContentW_Inr [OF r] have "contextMap s10 = contextMap s9"
      by (auto split: if_splits)
    with t' show ?thesis by (simp add: foldl_pushChanged)
  qed
  have "collectContextDependencies ds D result =
          (if D = {} then set ds
           else set ds \<union> {opts_from result} \<union>
                {m_file m |m. m \<in> set (messages result) \<and> m_type m = ''dependency''})"
    by (auto simp: collectContextDependencies_def)
  with g m2 m3 m9 m' show "\<exists>cfg up h ds t1.
          getTailwindConfigW X configOrPath t = (Inr (Some cfg, up, Some h, ds), t1) \<and>
          contextMap t' (opts_from result) =
            Some (h,
                  (if D = {} then set ds
                   else set ds \<union> {opts_from result} \<union>
                        {m_file m |m. m \<in> set (messages result) \<and> m_type m = ''dependency''}),
                  cw)"
    by auto
qed

lemmas entry_defs =
  setupTrackingContext_def setupWatchingContext_def prepareWatcher_def getTailwindConfig_def
  getTailwindConfigW_def getContext_def createContext_def getCandidateFiles_def
  getCandidateFilesW_def purgeContent_def collectContextDependencies_def registerDependency_def
  registerCandidate_def getFileModifiedMap_def resolveChangedFiles_def resolvedChangedContent_def
  resolveChangedFilesW_def resolvedChangedContentW_def getConfigDependencies_def
  getConfigPath_def addConfigDependencies_def configDependenciesOf_def setAdd_def pushChanged_def
  sampleResult_def sampleWatching_def sampleWatcher_def

theorem contextDependencies_identity_witness:
  "contextMap
     (snd (setupTrackingContext sampleX (ArgString ''/proj/tw.config'') {''base''} sampleResult 0
             sampleState))
     (Some ''/proj/app.css'') =
     Some (''h1'', {Some ''/proj/tw.config'', Some ''/proj/theme.js'', Some ''/proj/app.css'',
                    Some ''/proj/base.css''}, 0) \<and>
   contextMap
     (snd (setupWatchingContext sampleX (ArgString ''/proj/tw.config'') {''base''} sampleResult 0
             sampleWatching))
     (Some ''/proj/app.css'') =
     Some (''h1'', {Some ''/proj/tw.config'', Some ''/proj/app.css'', Some ''/proj/base.css''}, 0)"
proof -
  let ?A = "ArgString ''/proj/tw.config''"
  let ?b = "setupTrackingContext sampleX ?A {''base''} sampleResult 0 sampleState"
  let ?w = "setupWatchingContext sampleX ?A {''base''} sampleResult 0 sampleWatching"
  have b1: "fst ?b = Inr 0" by (simp add: entry_defs sample_defs)
  have w1: "fst ?w = Inr 0" by (simp add: entry_defs sample_defs)
  have b: "?b = (Inr 0, snd ?b)" using b1 by (simp add: prod_eq_iff)
  have w: "?w = (Inr 0, snd ?w)" using w1 by (simp add: prod_eq_iff)
  have gb: "fst (getTailwindConfig sampleX ?A sampleState) =
              Inr (Some (sampleConfig 10), Some ''/proj/tw.config'', Some ''h1'',
                   Some [''/proj/tw.config'', ''/proj/theme.js''])"
    by (simp add: getTailwindConfig_def sample_defs)
  have gw: "fst (getTailwindConfigW sampleX ?A sampleWatching) =
              Inr (Some (sampleConfig 10), Some ''/proj/tw.config'', Some ''h1'',
                   [Some ''/proj/tw.config''])"
    by (simp add: getTailwindConfigW_def sampleWatching_def sample_defs)
  note T = contextDependencies_identity
         [of sampleX ?A "{''base''}" sampleResult 0 sampleState 0 "snd ?b" sampleWatching 0 "snd ?w"]
  from T [THEN conjunct1, THEN mp, OF b] obtain cfg up h ds s1 where
    1: "getTailwindConfig sampleX ?A sampleState = (Inr (Some cfg, up, Some h, Some ds), s1)"
       "contextMap (snd ?b) (opts_from sampleResult) =
          Some (h, (if {''base''} = ({} :: string set) then Some ` set ds
                    else Some ` set ds \<union> {opts_from sampleResult} \<union>
                         {m_file m |m. m \<in> set (messages sampleResult) \<and> m_type m = ''dependency''}),
                0)"
    by (elim exE conjE)
  from T [THEN conjunct2, THEN mp, OF w] obtain cfg' up' h' ds' t1 where
    2: "getTailwindConfigW sampleX ?A sampleWatching = (Inr (Some cfg', up', Some h', ds'), t1)"
       "contextMap (snd ?w) (opts_from sampleResult) =
          Some (h', (if {''base''} = ({} :: string set) then set ds'
                    else set ds' \<union> {opts_from sampleResult} \<union>
                         {m_file m |m. m \<in> set (messages sampleResult) \<and> m_type m = ''dependency''}),
                0)"
    by (elim exE conjE)
  have m: "{m_file m |m. m \<in> set (messages sampleResult) \<and> m_type m = ''dependency''} =
           {Some ''/proj/base.css''}"
  proof -
    have "{m_file m |m. m \<in> set (messages sampleResult) \<and> m_type m = ''dependency''} =
          set (map m_file (filter (\<lambda>m. m_type m = ''dependency'') (messages sampleResult)))"
      by auto
    also have "\<dots> = {Some ''/proj/base.css''}" by (simp add: sampleResult_def)
    finally show ?thesis .
  qed
  from 1(1) gb have hd: "h = ''h1''" "ds = [''/proj/tw.config'', ''/proj/theme.js'']" by simp_all
  from 2(1) gw have hd': "h' = ''h1''" "ds' = [Some ''/proj/tw.config'']" by simp_all
  have o: "opts_from sampleResult = Some ''/proj/app.css''" by (simp add: sampleResult_def)
  from 1(2) have c1: "contextMap (snd ?b) (Some ''/proj/app.css'') =
     Some (''h1'', {Some ''/proj/tw.config'', Some ''/proj/theme.js'', Some ''/proj/app.css'',
                    Some ''/proj/base.css''}, 0)"
    unfolding m hd o by (simp add: insert_commute)
  from 2(2) have c2: "contextMap (snd ?w) (Some ''/proj/app.css'') =
     Some (''h1'', {Some ''/proj/tw.config'', Some ''/proj/app.css'', Some ''/proj/base.css''}, 0)"
    unfolding m hd' o by (simp add: insert_commute)
  from c1 c2 show ?thesis by (rule conjI)
qed

section \<open>The watch-mode scan\<close>

lemma require_frame:
  assumes "require X p s = (r, s')"
  shows "\<exists>rc tr. s' = s\<lparr>requireCache := rc, trace := trace s @ tr\<rparr> \<and> readsOf tr = []"
proof (cases "requireCache s p")
  case (Some m)
  with assms have "s' = s\<lparr>requireCache := requireCache s, trace := trace s @ []\<rparr>"
    by (simp add: require_def)
  then show ?thesis by (metis readsOf.simps(1))
next
  case None
  show ?thesis
  proof (cases "loadModule X (fs s) (requireCache s) p")
    case None
    with assms \<open>requireCache s p = None\<close>
    have "s' = s\<lparr>requireCache := requireCache s, trace := trace s @ [LoadModule p]\<rparr>"
      by (simp add: require_def logEvent_def)
    moreover have "readsOf [LoadModule p] = []" by simp
    ultimately show ?thesis by blast
  next
    case (Some a)
    obtain m rc where a: "a = (m, rc)" by (cases a)
    with assms Some \<open>requireCache s p = None\<close>
    have "s' = s\<lparr>requireCache := rc, trace := trace s @ [LoadModule p]\<rparr>"
      by (simp add: require_def logEvent_def)
    moreover have "readsOf [LoadModule p] = []" by simp
    ultimately show ?thesis by blast
  qed
qed

text \<open>A load that returns changes the configuration cache, \<^verbatim>\<open>require.cache\<close> and the
  trace only, and reads no file's contents itself.\<close>

lemma getTailwindConfigW_frame:
  assumes a: "getTailwindConfigW X cop s = (Inr r, s1)"
  shows "\<exists>l rc tr. s1 = s\<lparr>configPathCacheW := l, requireCache := rc, trace := trace s @ tr\<rparr> \<and>
                   readsOf tr = []"
proof (cases "resolveConfigPath X (fs s) cop")
  case None
  with a have "s1 = s"
    unfolding getTailwindConfigW_def by (auto simp: Let_def split: sum.splits)
  then have "s1 = s\<lparr>configPathCacheW := configPathCacheW s, requireCache := requireCache s,
                    trace := trace s @ []\<rparr>" by simp
  then show ?thesis by (metis readsOf.simps(1))
next
  case (Some p)
  from getTailwindConfigW_Inr_file [OF a Some] obtain i where i: "fs s p = Some i" by blast
  obtain prev l1 where get: "lru_get p (configPathCacheW s) = (prev, l1)"
    by (cases "lru_get p (configPathCacheW s)")
  note P = getTailwindConfigW_path [OF Some get i]
  let ?fast = "case prev of None \<Rightarrow> False | Some (c, prevModified, h) \<Rightarrow> mtimeMs i \<le> prevModified"
  show ?thesis
  proof (cases ?fast)
    case True
    with a P have "s1 = s\<lparr>configPathCacheW := l1, requireCache := requireCache s,
                           trace := trace s @ [Stat p]\<rparr>"
      by (auto simp: Let_def)
    moreover have "readsOf [Stat p] = []" by simp
    ultimately show ?thesis by blast
  next
    case False
    let ?t2 = "s\<lparr>configPathCacheW := l1, trace := trace s @ [Stat p],
                  requireCache := (requireCache s)(p := None)\<rparr>"
    from False a P obtain exports t3 where req: "require X p ?t2 = (Inr exports, t3)"
      by (cases "require X p ?t2"; cases "fst (require X p ?t2)") (auto simp: Let_def)
    from require_frame [OF req] obtain rc tr where
      t3: "t3 = ?t2\<lparr>requireCache := rc, trace := trace ?t2 @ tr\<rparr>" and tr: "readsOf tr = []"
      by blast
    from False a P req have "\<exists>l. s1 = t3\<lparr>configPathCacheW := l\<rparr>" by (auto simp: Let_def)
    then obtain l where "s1 = t3\<lparr>configPathCacheW := l\<rparr>" by blast
    with t3 have "s1 = s\<lparr>configPathCacheW := l, requireCache := rc,
                           trace := trace s @ (Stat p # tr)\<rparr>"
      by simp
    moreover have "readsOf (Stat p # tr) = []" by (simp add: tr)
    ultimately show ?thesis by blast
  qed
qed

lemma getTailwindConfig_frame:
  assumes a: "getTailwindConfig X cop s = (Inr r, s1)"
  shows "\<exists>l rc tr. s1 = s\<lparr>configPathCache := l, requireCache := rc, trace := trace s @ tr\<rparr> \<and>
                   readsOf tr = []"
proof (cases "resolveConfigPath X (fs s) cop")
  case None
  with a have "s1 = s"
    unfolding getTailwindConfig_def by (auto simp: Let_def split: sum.splits)
  then have "s1 = s\<lparr>configPathCache := configPathCache s, requireCache := requireCache s,
                    trace := trace s @ []\<rparr>" by simp
  then show ?thesis by (metis readsOf.simps(1))
next
  case (Some p)
  from getTailwindConfig_Inr_deps [OF a Some] obtain deps where
    deps: "getModuleDependencies X (fs s) p = Some deps" and ex: "\<forall>d\<in>set deps. fs s d \<noteq> None"
    by blast
  obtain prev l1 where get: "lru_get p (configPathCache s) = (prev, l1)"
    by (cases "lru_get p (configPathCache s)")
  note P = getTailwindConfig_path [OF Some deps get ex]
  let ?pm = "map_option (\<lambda>(c, h, d, m). m) prev"
  have r0: "readsOf (ModuleDependencies p # map Stat deps) = []" by (simp add: readsOf_Stat)
  show ?thesis
  proof (cases "modifiedDeps ?pm (fs s) deps")
    case False
    with a P have "s1 = s\<lparr>configPathCache := l1, requireCache := requireCache s,
                           trace := trace s @ ModuleDependencies p # map Stat deps\<rparr>"
      by (auto simp: Let_def)
    with r0 show ?thesis by blast
  next
    case True
    let ?s2 = "s\<lparr>configPathCache := l1, trace := trace s @ ModuleDependencies p # map Stat deps,
                  requireCache := requireCache s |` (- set deps)\<rparr>"
    from True a P obtain exports s3 where req: "require X p ?s2 = (Inr exports, s3)"
      by (cases "require X p ?s2"; cases "fst (require X p ?s2)") (auto simp: Let_def)
    from require_frame [OF req] obtain rc tr where
      s3: "s3 = ?s2\<lparr>requireCache := rc, trace := trace ?s2 @ tr\<rparr>" and tr: "readsOf tr = []"
      by blast
    from True a P req have "\<exists>l. s1 = s3\<lparr>configPathCache := l\<rparr>" by (auto simp: Let_def)
    then obtain l where "s1 = s3\<lparr>configPathCache := l\<rparr>" by blast
    with s3 have "s1 = s\<lparr>configPathCache := l, requireCache := rc,
                           trace := trace s @ ((ModuleDependencies p # map Stat deps) @ tr)\<rparr>"
      by simp
    moreover have "readsOf ((ModuleDependencies p # map Stat deps) @ tr) = []"
      using r0 tr by (simp only: readsOf_append) simp
    ultimately show ?thesis by blast
  qed
qed

lemma getCandidateFilesW_cands:
  assumes "getCandidateFilesW X c up cfg s = (Inr cands, s')"
  shows "(case candidateFilesCacheW s c of
        Some cached \<Rightarrow> cands = cached
      | None \<Rightarrow>
          (\<exists>its. purgeContent cfg = Inr its \<and>
                 cands = map (\<lambda>purgePath. normalizePath X
                                (pathResolve X [case up of None \<Rightarrow> cwd X
                                                | Some p \<Rightarrow> pathDirname X p, purgePath]))
                           (stringItems its)))"
  using assms unfolding getCandidateFilesW_def
  by (auto simp: Let_def split: option.splits sum.splits)

text \<open>
  The state at the watch-mode scan, against the state of the request: either no context
  was created and the file system is the one of the request, or the context returned is
  the new one.
\<close>

lemma setupWatchingContext_at_scan:
  assumes a: "setupWatchingContext X cop D result root s = (Inr c, s')"
  shows "\<exists>cands s9.
     scannedContentCache s9 = scannedContentCache s \<and>
     readsOf (trace s9) = readsOf (trace s) \<and>
     candidateFilesCacheW s9 c = Some cands \<and>
     (\<exists>cfg up h ds s1.
        getTailwindConfigW X cop s = (Inr (Some cfg, up, Some h, ds), s1) \<and>
        (case candidateFilesCacheW s c of
          Some cached \<Rightarrow> cands = cached
        | None \<Rightarrow>
            (\<exists>its. purgeContent cfg = Inr its \<and>
                   cands = map (\<lambda>purgePath. normalizePath X
                                  (pathResolve X [case up of None \<Rightarrow> cwd X
                                                  | Some p \<Rightarrow> pathDirname X p, purgePath]))
                             (stringItems its)))) \<and>
     (nextContext s9 = nextContext s \<and> fs s9 = fs s \<or>
      nextContext s9 = Suc (nextContext s) \<and> c = nextContext s) \<and>
     ctx_changedContent (contexts s9 c) = priorContent s s9 c \<and>
     (if D = {} then s' = s9
      else \<exists>cc s10.
             resolvedChangedContentW X c cands s9 = (Inr cc, s10) \<and>
             s' = foldl (\<lambda>s entry. pushChanged c entry s) s10 cc)"
proof -
  from setupWatchingContext_Inr [OF a] obtain cfg up h ds s1 isNew s2 cands s3 s9 where
    g: "getTailwindConfigW X cop s = (Inr (Some cfg, up, Some h, ds), s1)"
    and gc: "getContext D root result (Some cfg) up (Some h)
       (collectContextDependencies ds D result) s1 = (Inr (c, isNew), s2)"
    and gf: "getCandidateFilesW X c up cfg s2 = (Inr cands, s3)"
    and pw: "prepareWatcher X cop c isNew cands ds s3 = (Inr (), s9)"
    and rest: "if D = {} then s' = s9
      else \<exists>cc s10.
             resolvedChangedContentW X c cands s9 = (Inr cc, s10) \<and>
             s' = foldl (\<lambda>s entry. pushChanged c entry s) s10 cc"
    by blast
  from getTailwindConfigW_frame [OF g] obtain l rc tr1 where
    s1: "s1 = s\<lparr>configPathCacheW := l, requireCache := rc, trace := trace s @ tr1\<rparr>"
    and tr1: "readsOf tr1 = []" by blast
  have f1: "scannedContentCache s1 = scannedContentCache s" "nextContext s1 = nextContext s"
    "fs s1 = fs s" "contexts s1 = contexts s" "readsOf (trace s1) = readsOf (trace s)"
    by (simp_all add: s1 readsOf_append tr1)
  from getContext_Inr [OF gc] obtain wo tr2 where
    tr2: "readsOf tr2 = []"
    and s2: "if isNew
            then c = nextContext s1 \<and>
                 s2 = s1\<lparr>watcherObjects := wo, trace := trace s1 @ tr2,
                        contexts := (contexts s1)
                          (c := \<lparr>ctx_tailwindConfig = cfg, ctx_changedContent = [],
                                 ctx_disposables = 0\<rparr>),
                        fileModifiedMaps := (fileModifiedMaps s1)(c := Map.empty),
                        nextContext := Suc c,
                        contextMap := (contextMap s1)
                          (opts_from result \<mapsto> (h, collectContextDependencies ds D result, c))\<rparr>
            else s2 = s1 \<and>
                 contextMap s1 (opts_from result) =
                   Some (h, collectContextDependencies ds D result, c)"
    by auto
  have f2: "scannedContentCache s2 = scannedContentCache s"
    "readsOf (trace s2) = readsOf (trace s)" "fs s2 = fs s"
    using s2 f1 by (cases isNew; simp add: readsOf_append tr2)+
  have n2: "if isNew
            then c = nextContext s \<and> nextContext s2 = Suc (nextContext s) \<and>
                 ctx_changedContent (contexts s2 c) = []
            else nextContext s2 = nextContext s \<and> contexts s2 = contexts s"
    using s2 f1 by (cases isNew) simp_all
  have s3: "s3 = s2\<lparr>candidateFilesCacheW := (candidateFilesCacheW s2)(c \<mapsto> cands)\<rparr>"
    using getCandidateFilesW_Inr [OF gf] .
  from prepareWatcher_frame [OF pw] obtain fs' tr rp tf wo' pe cd cp where
    s9: "s9 = s3\<lparr>fs := fs', trace := trace s3 @ tr, randomPos := rp, touchFiles := tf,
            watcherObjects := wo', pending := pe, configDependenciesCache := cd,
            configPaths := cp,
            contexts := (contexts s3)
              (c := (contexts s3 c)\<lparr>ctx_disposables := Suc (ctx_disposables (contexts s3 c))\<rparr>)\<rparr>"
    and tr: "readsOf tr = []" and fs': "\<not> isNew \<longrightarrow> fs' = fs s3"
    by blast
  have 1: "scannedContentCache s9 = scannedContentCache s"
    by (simp add: s9 s3 f2)
  have 2: "readsOf (trace s9) = readsOf (trace s)"
    by (simp add: s9 s3 f2 readsOf_append tr)
  have 3: "candidateFilesCacheW s9 c = Some cands"
    by (simp add: s9 s3)
  have n9: "nextContext s9 = nextContext s2"
    "ctx_changedContent (contexts s9 c) = ctx_changedContent (contexts s2 c)"
    "fs s9 = fs'" "fs s3 = fs s2"
    by (simp_all add: s9 s3)
  have 4: "nextContext s9 = nextContext s \<and> fs s9 = fs s \<or>
      nextContext s9 = Suc (nextContext s) \<and> c = nextContext s"
    using n2 n9 fs' f2(3) by (cases isNew) simp_all
  have 5: "ctx_changedContent (contexts s9 c) = priorContent s s9 c"
  proof (cases isNew)
    case True
    with n2 have "c = nextContext s \<and> nextContext s2 = Suc (nextContext s) \<and>
                 ctx_changedContent (contexts s2 c) = []"
      by (auto split: if_splits)
    then have "nextContext s2 = Suc (nextContext s)" "ctx_changedContent (contexts s2 c) = []"
      by blast+
    then show ?thesis unfolding n9 priorContent_def by simp
  next
    case False
    with n2 have "nextContext s2 = nextContext s \<and> contexts s2 = contexts s"
      by (auto split: if_splits)
    then have "nextContext s2 = nextContext s" "contexts s2 = contexts s" by blast+
    then show ?thesis unfolding n9 priorContent_def by simp
  qed
  have "candidateFilesCacheW s2 c = candidateFilesCacheW s c"
    using s2 by (cases isNew) (simp_all add: s1)
  with getCandidateFilesW_cands [OF gf] have 6: "(case candidateFilesCacheW s c of
          Some cached \<Rightarrow> cands = cached
        | None \<Rightarrow>
            (\<exists>its. purgeContent cfg = Inr its \<and>
                   cands = map (\<lambda>purgePath. normalizePath X
                                  (pathResolve X [case up of None \<Rightarrow> cwd X
                                                  | Some p \<Rightarrow> pathDirname X p, purgePath]))
                             (stringItems its)))"
    by simp
  from g 6 have 7: "\<exists>cfg up h ds s1.
        getTailwindConfigW X cop s = (Inr (Some cfg, up, Some h, ds), s1) \<and>
        (case candidateFilesCacheW s c of
          Some cached \<Rightarrow> cands = cached
        | None \<Rightarrow>
            (\<exists>its. purgeContent cfg = Inr its \<and>
                   cands = map (\<lambda>purgePath. normalizePath X
                                  (pathResolve X [case up of None \<Rightarrow> cwd X
                                                  | Some p \<Rightarrow> pathDirname X p, purgePath]))
                             (stringItems its)))"
    by blast
  from 1 2 3 4 5 7 rest show ?thesis by blast
qed

text \<open>
  C9 (as stated, it fails for a request without directives). In the state
  \<open>sampleWatchingPlain\<close> the context of the sample stylesheet has been scanned and its
  configuration holds an inline raw entry; a request with an empty directive set
  returns that context and appends nothing to its \<open>changedContent\<close>.
\<close>

theorem setupWatchingContext_raw_counterexample:
  "fst (setupWatchingContext sampleX (ArgString ''/proj/tw.config'') {} sampleResult 0
          sampleWatchingPlain) = Inr 0 \<and>
   purgeContent (ctx_tailwindConfig (contexts sampleWatchingPlain 0)) =
     Inr [ItemString ''src/**/*.html'', ItemRaw ''<div class=p-4>'' (Some ''html'')] \<and>
   ctx_changedContent
     (contexts (snd (setupWatchingContext sampleX (ArgString ''/proj/tw.config'') {} sampleResult 0
                       sampleWatchingPlain)) 0) =
     ctx_changedContent (contexts sampleWatchingPlain 0)"
  by (simp add: sampleWatchingPlain_def entry_defs sample_defs)

text \<open>
  C9, amended. A watch-mode request that returns the context \<open>c\<close>, leading from the state
  \<open>s\<close> to \<open>s'\<close>, either creates no context and leaves the file system as it was, or
  creates \<open>c\<close>. The candidate patterns of \<open>c\<close> are those held for \<open>c\<close> already or, when
  none are, the string entries of the loaded configuration's content, resolved against
  the directory of the configuration file (the working directory, for an inline
  configuration). Against what \<open>c\<close> held before (nothing, for a context the request
  created):

  \<^item> with an empty directive set it appends nothing to \<open>changedContent\<close>, reads no file
    and leaves the scanned flags as they are;
  \<^item> with directives it leaves \<open>c\<close> flagged as scanned, and
    \<^item> when \<open>c\<close> was flagged already, it reads no file, and appends exactly the inline
      raw entries of the context's configuration;
    \<^item> when \<open>c\<close> was not flagged, it appends the inline raw entries followed by one
      record per file that the candidate patterns of \<open>c\<close> match in the file system the
      request leaves, with the contents the file has there; these are the files it
      reads, and \<open>c\<close> is the one flag it sets.
\<close>

theorem setupWatchingContext_scans_once:
  "setupWatchingContext X configOrPath D result root s = (Inr c, s') \<longrightarrow>
     (nextContext s' = nextContext s \<and> fs s' = fs s \<or>
      nextContext s' = Suc (nextContext s) \<and> c = nextContext s) \<and>
     (\<exists>cfg up h ds s1 cands.
        getTailwindConfigW X configOrPath s = (Inr (Some cfg, up, Some h, ds), s1) \<and>
        candidateFilesCacheW s' c = Some cands \<and>
        (case candidateFilesCacheW s c of
          Some cached \<Rightarrow> cands = cached
        | None \<Rightarrow>
            (\<exists>its. purgeContent cfg = Inr its \<and>
                   cands = map (\<lambda>purgePath. normalizePath X
                                  (pathResolve X [case up of None \<Rightarrow> cwd X
                                                  | Some p \<Rightarrow> pathDirname X p, purgePath]))
                             (stringItems its)))) \<and>
     (D = {} \<longrightarrow>
        scannedContentCache s' = scannedContentCache s \<and>
        readsOf (trace s') = readsOf (trace s) \<and>
        ctx_changedContent (contexts s' c) = priorContent s s' c) \<and>
     (D \<noteq> {} \<longrightarrow>
        c \<in> scannedContentCache s' \<and>
        (\<exists>items cands.
           purgeContent (ctx_tailwindConfig (contexts s' c)) = Inr items \<and>
           candidateFilesCacheW s' c = Some cands \<and>
           (c \<in> scannedContentCache s \<longrightarrow>
              scannedContentCache s' = scannedContentCache s \<and>
              readsOf (trace s') = readsOf (trace s) \<and>
              ctx_changedContent (contexts s' c) = priorContent s s' c @ rawItems items) \<and>
           (c \<notin> scannedContentCache s \<longrightarrow>
              scannedContentCache s' = insert c (scannedContentCache s) \<and>
              ctx_changedContent (contexts s' c) =
                priorContent s s' c @ rawItems items @
                map (fileEntry X (fs s'))
                  (foldl (\<lambda>a f. setAdd f a) [] (fastGlobSync X (fs s') cands)) \<and>
              readsOf (trace s') =
                readsOf (trace s) @
                foldl (\<lambda>a f. setAdd f a) [] (fastGlobSync X (fs s') cands))))"
proof
  assume a: "setupWatchingContext X configOrPath D result root s = (Inr c, s')"
  from setupWatchingContext_at_scan [OF a] obtain cands s9 where
    sc: "scannedContentCache s9 = scannedContentCache s"
    and rd: "readsOf (trace s9) = readsOf (trace s)"
    and cf: "candidateFilesCacheW s9 c = Some cands"
    and pat: "\<exists>cfg up h ds s1.
        getTailwindConfigW X configOrPath s = (Inr (Some cfg, up, Some h, ds), s1) \<and>
        (case candidateFilesCacheW s c of
          Some cached \<Rightarrow> cands = cached
        | None \<Rightarrow>
            (\<exists>its. purgeContent cfg = Inr its \<and>
                   cands = map (\<lambda>purgePath. normalizePath X
                                  (pathResolve X [case up of None \<Rightarrow> cwd X
                                                  | Some p \<Rightarrow> pathDirname X p, purgePath]))
                             (stringItems its)))"
    and nx: "nextContext s9 = nextContext s \<and> fs s9 = fs s \<or>
      nextContext s9 = Suc (nextContext s) \<and> c = nextContext s"
    and pr: "ctx_changedContent (contexts s9 c) = priorContent s s9 c"
    and rest: "if D = {} then s' = s9
      else \<exists>cc s10.
             resolvedChangedContentW X c cands s9 = (Inr cc, s10) \<and>
             s' = foldl (\<lambda>s entry. pushChanged c entry s) s10 cc"
    by blast
  have same: "nextContext s' = nextContext s9 \<and> fs s' = fs s9 \<and>
              candidateFilesCacheW s' = candidateFilesCacheW s9"
  proof (cases "D = {}")
    case True
    with rest show ?thesis by simp
  next
    case False
    with rest obtain cc s10 where
      r: "resolvedChangedContentW X c cands s9 = (Inr cc, s10)"
      and s': "s' = foldl (\<lambda>s entry. pushChanged c entry s) s10 cc"
      by auto
    from resolvedChangedContentW_Inr [OF r] have "nextContext s10 = nextContext s9 \<and> fs s10 = fs s9 \<and>
              candidateFilesCacheW s10 = candidateFilesCacheW s9"
      by (auto split: if_splits)
    then show ?thesis unfolding s' foldl_pushChanged by simp
  qed
  have pe: "priorContent s s' c = priorContent s s9 c"
    using same by (simp add: priorContent_def)
  have head: "nextContext s' = nextContext s \<and> fs s' = fs s \<or>
      nextContext s' = Suc (nextContext s) \<and> c = nextContext s"
    using nx same by simp
  have head2: "(\<exists>cfg up h ds s1 cands.
          getTailwindConfigW X configOrPath s = (Inr (Some cfg, up, Some h, ds), s1) \<and>
          candidateFilesCacheW s' c = Some cands \<and>
          (case candidateFilesCacheW s c of
            Some cached \<Rightarrow> cands = cached
          | None \<Rightarrow>
              (\<exists>its. purgeContent cfg = Inr its \<and>
                     cands = map (\<lambda>purgePath. normalizePath X
                                    (pathResolve X [case up of None \<Rightarrow> cwd X
                                                    | Some p \<Rightarrow> pathDirname X p, purgePath]))
                               (stringItems its))))"
    using pat cf same by auto
  have plain: "D = {} \<longrightarrow>
        scannedContentCache s' = scannedContentCache s \<and>
        readsOf (trace s') = readsOf (trace s) \<and>
        ctx_changedContent (contexts s' c) = priorContent s s' c"
    using rest sc rd pr by simp
  have scan: "D \<noteq> {} \<longrightarrow>
        c \<in> scannedContentCache s' \<and>
        (\<exists>items cands.
           purgeContent (ctx_tailwindConfig (contexts s' c)) = Inr items \<and>
           candidateFilesCacheW s' c = Some cands \<and>
           (c \<in> scannedContentCache s \<longrightarrow>
              scannedContentCache s' = scannedContentCache s \<and>
              readsOf (trace s') = readsOf (trace s) \<and>
              ctx_changedContent (contexts s' c) = priorContent s s' c @ rawItems items) \<and>
           (c \<notin> scannedContentCache s \<longrightarrow>
              scannedContentCache s' = insert c (scannedContentCache s) \<and>
              ctx_changedContent (contexts s' c) =
                priorContent s s' c @ rawItems items @
                map (fileEntry X (fs s'))
                  (foldl (\<lambda>a f. setAdd f a) [] (fastGlobSync X (fs s') cands)) \<and>
              readsOf (trace s') =
                readsOf (trace s) @
                foldl (\<lambda>a f. setAdd f a) [] (fastGlobSync X (fs s') cands)))"
  proof
    assume D: "D \<noteq> {}"
    with rest obtain cc s10 where
      r: "resolvedChangedContentW X c cands s9 = (Inr cc, s10)"
      and s': "s' = foldl (\<lambda>s entry. pushChanged c entry s) s10 cc"
      by auto
    from resolvedChangedContentW_Inr [OF r] obtain items where
      items: "purgeContent (ctx_tailwindConfig (contexts s9 c)) = Inr items"
      and br: "if c \<in> scannedContentCache s9
      then cc = rawItems items \<and> s10 = s9
      else cc = rawItems items @
                map (fileEntry X (fs s9))
                  (foldl (\<lambda>a f. setAdd f a) [] (fastGlobSync X (fs s9) cands)) \<and>
           s10 = s9\<lparr>scannedContentCache := insert c (scannedContentCache s9),
                  trace := trace s9 @ Glob cands #
                           map ReadFile
                             (foldl (\<lambda>a f. setAdd f a) [] (fastGlobSync X (fs s9) cands))\<rparr>"
      by blast
    have s'e: "s' = s10\<lparr>contexts := (contexts s10)
          (c := (contexts s10 c)\<lparr>ctx_changedContent := ctx_changedContent (contexts s10 c) @ cc\<rparr>)\<rparr>"
      unfolding s' foldl_pushChanged ..
    have c10: "contexts s10 = contexts s9"
      using br by (auto split: if_splits)
    have f9: "fs s9 = fs s'" using same by simp
    have flag: "c \<in> scannedContentCache s'"
      using br by (auto simp: s'e split: if_splits)
    have cfg: "purgeContent (ctx_tailwindConfig (contexts s' c)) = Inr items"
      using items by (simp add: s'e c10)
    have cf': "candidateFilesCacheW s' c = Some cands"
      using br cf by (auto simp: s'e split: if_splits)
    have flagged: "c \<in> scannedContentCache s \<longrightarrow>
              scannedContentCache s' = scannedContentCache s \<and>
              readsOf (trace s') = readsOf (trace s) \<and>
              ctx_changedContent (contexts s' c) = priorContent s s' c @ rawItems items"
      using br sc rd pr pe by (auto simp: s'e)
    have first: "c \<notin> scannedContentCache s \<longrightarrow>
              scannedContentCache s' = insert c (scannedContentCache s) \<and>
              ctx_changedContent (contexts s' c) =
                priorContent s s' c @ rawItems items @
                map (fileEntry X (fs s'))
                  (foldl (\<lambda>a f. setAdd f a) [] (fastGlobSync X (fs s') cands)) \<and>
              readsOf (trace s') =
                readsOf (trace s) @
                foldl (\<lambda>a f. setAdd f a) [] (fastGlobSync X (fs s') cands)"
    proof
      assume n: "c \<notin> scannedContentCache s"
      let ?files = "foldl (\<lambda>a f. setAdd f a) [] (fastGlobSync X (fs s9) cands)"
      from n sc br have cc: "cc = rawItems items @ map (fileEntry X (fs s9)) ?files"
        and s10: "s10 = s9\<lparr>scannedContentCache := insert c (scannedContentCache s9),
                  trace := trace s9 @ Glob cands # map ReadFile ?files\<rparr>"
        by simp_all
      have 1: "scannedContentCache s' = insert c (scannedContentCache s)"
        by (simp add: s'e s10 sc)
      have "ctx_changedContent (contexts s' c) = ctx_changedContent (contexts s9 c) @ cc"
        by (simp add: s'e s10)
      then have 2: "ctx_changedContent (contexts s' c) =
                 priorContent s s' c @ rawItems items @ map (fileEntry X (fs s9)) ?files"
        unfolding pr pe [symmetric] cc .
      have 3: "readsOf (trace s') = readsOf (trace s) @ ?files"
        by (simp add: s'e s10 readsOf_append readsOf_ReadFile rd)
      from 1 2 3 show "scannedContentCache s' = insert c (scannedContentCache s) \<and>
              ctx_changedContent (contexts s' c) =
                priorContent s s' c @ rawItems items @
                map (fileEntry X (fs s'))
                  (foldl (\<lambda>a f. setAdd f a) [] (fastGlobSync X (fs s') cands)) \<and>
              readsOf (trace s') =
                readsOf (trace s) @
                foldl (\<lambda>a f. setAdd f a) [] (fastGlobSync X (fs s') cands)"
        unfolding f9 by simp
    qed
    from flag cfg cf' flagged first show "c \<in> scannedContentCache s' \<and>
        (\<exists>items cands.
           purgeContent (ctx_tailwindConfig (contexts s' c)) = Inr items \<and>
           candidateFilesCacheW s' c = Some cands \<and>
           (c \<in> scannedContentCache s \<longrightarrow>
              scannedContentCache s' = scannedContentCache s \<and>
              readsOf (trace s') = readsOf (trace s) \<and>
              ctx_changedContent (contexts s' c) = priorContent s s' c @ rawItems items) \<and>
           (c \<notin> scannedContentCache s \<longrightarrow>
              scannedContentCache s' = insert c (scannedContentCache s) \<and>
              ctx_changedContent (contexts s' c) =
                priorContent s s' c @ rawItems items @
                map (fileEntry X (fs s'))
                  (foldl (\<lambda>a f. setAdd f a) [] (fastGlobSync X (fs s') cands)) \<and>
              readsOf (trace s') =
                readsOf (trace s) @
                foldl (\<lambda>a f. setAdd f a) [] (fastGlobSync X (fs s') cands)))"
      by blast
  qed
  from head head2 plain scan show "(nextContext s' = nextContext s \<and> fs s' = fs s \<or>
      nextContext s' = Suc (nextContext s) \<and> c = nextContext s) \<and>
     (\<exists>cfg up h ds s1 cands.
        getTailwindConfigW X configOrPath s = (Inr (Some cfg, up, Some h, ds), s1) \<and>
        candidateFilesCacheW s' c = Some cands \<and>
        (case candidateFilesCacheW s c of
          Some cached \<Rightarrow> cands = cached
        | None \<Rightarrow>
            (\<exists>its. purgeContent cfg = Inr its \<and>
                   cands = map (\<lambda>purgePath. normalizePath X
                                  (pathResolve X [case up of None \<Rightarrow> cwd X
                                                  | Some p \<Rightarrow> pathDirname X p, purgePath]))
                             (stringItems its)))) \<and>
     (D = {} \<longrightarrow>
        scannedContentCache s' = scannedContentCache s \<and>
        readsOf (trace s') = readsOf (trace s) \<and>
        ctx_changedContent (contexts s' c) = priorContent s s' c) \<and>
     (D \<noteq> {} \<longrightarrow>
        c \<in> scannedContentCache s' \<and>
        (\<exists>items cands.
           purgeContent (ctx_tailwindConfig (contexts s' c)) = Inr items \<and>
           candidateFilesCacheW s' c = Some cands \<and>
           (c \<in> scannedContentCache s \<longrightarrow>
              scannedContentCache s' = scannedContentCache s \<and>
              readsOf (trace s') = readsOf (trace s) \<and>
              ctx_changedContent (contexts s' c) = priorContent s s' c @ rawItems items) \<and>
           (c \<notin> scannedContentCache s \<longrightarrow>
              scannedContentCache s' = insert c (scannedContentCache s) \<and>
              ctx_changedContent (contexts s' c) =
                priorContent s s' c @ rawItems items @
                map (fileEntry X (fs s'))
                  (foldl (\<lambda>a f. setAdd f a) [] (fastGlobSync X (fs s') cands)) \<and>
              readsOf (trace s') =
                readsOf (trace s) @
                foldl (\<lambda>a f. setAdd f a) [] (fastGlobSync X (fs s') cands))))"
    by (intro conjI)
qed

lemmas fresh_defs =
  rebootWatcher_def generateTouchFileName_def chars_def randomCharsLength_def closeWatcher_def
  touch_def utimesSync_def openWrite_def upt_rec [of _ "numeral n" for n]

theorem setupWatchingContext_scans_once_witness:
  "ctx_changedContent
     (contexts (snd (setupWatchingContext sampleX (ArgString ''/proj/tw.config'') {''base''}
                       sampleResult 0 sampleState)) 0) =
     [\<lparr>content = ''<div class=p-4>'', extension = Some ''html''\<rparr>,
      \<lparr>content = ''<p class=m-1>'', extension = Some ''html''\<rparr>] \<and>
   readsOf (trace (snd (setupWatchingContext sampleX (ArgString ''/proj/tw.config'') {''base''}
                          sampleResult 0 sampleState))) = [''/proj/src/a.html''] \<and>
   scannedContentCache (snd (setupWatchingContext sampleX (ArgString ''/proj/tw.config'') {''base''}
                               sampleResult 0 sampleState)) = {0} \<and>
   candidateFilesCacheW (snd (setupWatchingContext sampleX (ArgString ''/proj/tw.config'')
                                {''base''} sampleResult 0 sampleState)) 0 =
     Some [''/proj/src/**/*.html''] \<and>
   ctx_changedContent
     (contexts (snd (setupWatchingContext sampleX (ArgString ''/proj/tw.config'') {''base''}
                       sampleResult 0
                       (snd (setupWatchingContext sampleX (ArgString ''/proj/tw.config'') {''base''}
                               sampleResult 0 sampleState)))) 0) =
     [\<lparr>content = ''<div class=p-4>'', extension = Some ''html''\<rparr>,
      \<lparr>content = ''<p class=m-1>'', extension = Some ''html''\<rparr>,
      \<lparr>content = ''<div class=p-4>'', extension = Some ''html''\<rparr>] \<and>
   readsOf (trace (snd (setupWatchingContext sampleX (ArgString ''/proj/tw.config'') {''base''}
                          sampleResult 0
                          (snd (setupWatchingContext sampleX (ArgString ''/proj/tw.config'')
                                  {''base''} sampleResult 0 sampleState))))) =
     [''/proj/src/a.html''] \<and>
   ctx_changedContent
     (contexts (snd (setupWatchingContext sampleX (ArgString ''/proj/tw.config'') {}
                       sampleResult 0 sampleState)) 0) = [] \<and>
   ctx_changedContent
     (contexts (snd (setupWatchingContext sampleX (ArgString ''/proj/tw.config'') {}
                       sampleResult 0 sampleWatchingPlain)) 0) = []"
proof -
  let ?A = "ArgString ''/proj/tw.config''"
  let ?w0 = "setupWatchingContext sampleX ?A {''base''} sampleResult 0 sampleState"
  let ?w1 = "setupWatchingContext sampleX ?A {''base''} sampleResult 0 (snd ?w0)"
  let ?wp = "setupWatchingContext sampleX ?A {} sampleResult 0 sampleState"
  let ?wq = "setupWatchingContext sampleX ?A {} sampleResult 0 sampleWatchingPlain"
  have f0: "fst ?w0 = Inr 0" and fp: "fst ?wp = Inr 0"
    by (simp_all add: entry_defs sample_defs fresh_defs)
  have f1: "fst ?w1 = Inr 0"
    by (simp add: entry_defs sample_defs fresh_defs)
  have fq: "fst ?wq = Inr 0"
    by (simp add: sampleWatchingPlain_def entry_defs sample_defs)
  have e0: "?w0 = (Inr 0, snd ?w0)" using f0 by (simp add: prod_eq_iff)
  have e1: "?w1 = (Inr 0, snd ?w1)" using f1 by (simp add: prod_eq_iff)
  have ep: "?wp = (Inr 0, snd ?wp)" using fp by (simp add: prod_eq_iff)
  have eq: "?wq = (Inr 0, snd ?wq)" using fq by (simp add: prod_eq_iff)
  have ne: "{''base''} \<noteq> ({} :: string set)" by simp
  note T0 = setupWatchingContext_scans_once
              [of sampleX ?A "{''base''}" sampleResult 0 sampleState 0 "snd ?w0",
               THEN mp, OF e0, THEN conjunct2, THEN conjunct2, THEN conjunct2, THEN mp, OF ne]
  note T1 = setupWatchingContext_scans_once
              [of sampleX ?A "{''base''}" sampleResult 0 "snd ?w0" 0 "snd ?w1",
               THEN mp, OF e1, THEN conjunct2, THEN conjunct2, THEN conjunct2, THEN mp, OF ne]
  note Tp = setupWatchingContext_scans_once
              [of sampleX ?A "{}" sampleResult 0 sampleState 0 "snd ?wp",
               THEN mp, OF ep, THEN conjunct2, THEN conjunct2, THEN conjunct1, THEN mp, OF refl]
  note Tq = setupWatchingContext_scans_once
              [of sampleX ?A "{}" sampleResult 0 sampleWatchingPlain 0 "snd ?wq",
               THEN mp, OF eq, THEN conjunct2, THEN conjunct2, THEN conjunct1, THEN mp, OF refl]
  have n0: "(0::nat) \<notin> scannedContentCache sampleState" by (simp add: sampleState_def)
  from T0 n0 have "scannedContentCache (snd ?w0) = insert 0 (scannedContentCache sampleState)"
    by blast
  then have r0: "scannedContentCache (snd ?w0) = {0}" by (simp add: sampleState_def)
  then have in0: "0 \<in> scannedContentCache (snd ?w0)" by simp
  from T1 in0 have r1: "readsOf (trace (snd ?w1)) = readsOf (trace (snd ?w0))" by blast
  have np: "nextContext (snd ?wp) \<noteq> nextContext sampleState"
    by (simp add: entry_defs sample_defs fresh_defs)
  from Tp have "ctx_changedContent (contexts (snd ?wp) 0) = priorContent sampleState (snd ?wp) 0"
    by (elim conjE)
  with np have rp: "ctx_changedContent (contexts (snd ?wp) 0) = []"
    by (simp add: priorContent_def)
  have nq: "nextContext (snd ?wq) = nextContext sampleWatchingPlain"
    by (simp add: sampleWatchingPlain_def entry_defs sample_defs)
  have c0: "ctx_changedContent (contexts sampleWatchingPlain 0) = []"
    by (simp add: sampleWatchingPlain_def sampleWatching_def sampleState_def)
  from Tq have "ctx_changedContent (contexts (snd ?wq) 0) =
                  priorContent sampleWatchingPlain (snd ?wq) 0"
    by (elim conjE)
  with nq c0 have rq: "ctx_changedContent (contexts (snd ?wq) 0) = []"
    by (simp add: priorContent_def)
  have v0: "ctx_changedContent (contexts (snd ?w0) 0) =
     [\<lparr>content = ''<div class=p-4>'', extension = Some ''html''\<rparr>,
      \<lparr>content = ''<p class=m-1>'', extension = Some ''html''\<rparr>]"
    by (simp add: entry_defs sample_defs fresh_defs)
  have t0: "readsOf (trace (snd ?w0)) = [''/proj/src/a.html'']"
    by (simp add: entry_defs sample_defs fresh_defs)
  have v1: "ctx_changedContent (contexts (snd ?w1) 0) =
     [\<lparr>content = ''<div class=p-4>'', extension = Some ''html''\<rparr>,
      \<lparr>content = ''<p class=m-1>'', extension = Some ''html''\<rparr>,
      \<lparr>content = ''<div class=p-4>'', extension = Some ''html''\<rparr>]"
    by (simp add: entry_defs sample_defs fresh_defs)
  from r1 t0 have t1: "readsOf (trace (snd ?w1)) = [''/proj/src/a.html'']" by simp
  have k0: "candidateFilesCacheW (snd ?w0) 0 = Some [''/proj/src/**/*.html'']"
    by (simp add: entry_defs sample_defs fresh_defs)
  from v0 t0 r0 k0 v1 t1 rp rq show ?thesis by (intro conjI)
qed

section \<open>Two build-mode requests in succession\<close>

lemma getTailwindConfig_repeat:
  assumes a: "getTailwindConfig X cop s = (Inr r, s1)"
    and fs': "fs s' = fs s"
    and c': "configPathCache s' = configPathCache s1"
  shows "\<exists>l2 tr. getTailwindConfig X cop s' =
                    (Inr r, s'\<lparr>configPathCache := l2, trace := trace s' @ tr\<rparr>) \<and>
                 readsOf tr = []"
proof (cases "resolveConfigPath X (fs s) cop")
  case None
  from a None have r: "getTailwindConfig X cop s' = (Inr r, s')"
    unfolding getTailwindConfig_def fs' by (auto simp: Let_def split: sum.splits)
  have "s' = s'\<lparr>configPathCache := configPathCache s', trace := trace s' @ []\<rparr>" by simp
  with r have "getTailwindConfig X cop s' =
                 (Inr r, s'\<lparr>configPathCache := configPathCache s', trace := trace s' @ []\<rparr>)"
    by simp
  then show ?thesis by (metis readsOf.simps(1))
next
  case (Some p)
  from getTailwindConfig_Inr_deps [OF a Some] obtain deps where
    deps: "getModuleDependencies X (fs s) p = Some deps" and ex: "\<forall>d\<in>set deps. fs s d \<noteq> None"
    by blast
  have times: "\<forall>d\<in>set deps. \<exists>i i'. fs s d = Some i \<and> fs s' d = Some i' \<and> mtimeMs i' \<le> mtimeMs i"
    using ex fs' by auto
  from getTailwindConfig_again [OF a Some _ c' deps _ subset_refl times] Some deps fs'
  obtain l2 where "getTailwindConfig X cop s' =
           (Inr r, s'\<lparr>configPathCache := l2,
                      trace := trace s' @ ModuleDependencies p # map Stat deps\<rparr>)"
    by auto
  moreover have "readsOf (ModuleDependencies p # map Stat deps) = []"
    by (simp add: readsOf_Stat)
  ultimately show ?thesis by blast
qed

lemma newerFile_updatedMap:
  "f \<in> set files \<Longrightarrow> \<not> newerFile fsm (updatedMap fsm fm files) f"
  by (auto simp: newerFile_def updatedMap_def split: option.splits)

lemma filter_newer_updatedMap:
  "filter (newerFile fsm (updatedMap fsm fm files)) files = []"
  by (simp add: filter_empty_conv newerFile_updatedMap)

text \<open>The state a build-mode request leaves, against the state it started from.\<close>

lemma setupTrackingContext_after:
  assumes a: "setupTrackingContext X cop D result root s = (Inr c, s')"
  shows "\<exists>cfg up h ds s1 cands.
     getTailwindConfig X cop s = (Inr (Some cfg, up, Some h, Some ds), s1) \<and>
     fs s' = fs s \<and>
     configPathCache s' = configPathCache s1 \<and>
     contextMap s' (opts_from result) =
       Some (h, collectContextDependencies (map Some ds) D result, c) \<and>
     candidateFilesCache s' c = Some cands \<and>
     (D \<noteq> {} \<longrightarrow>
        (\<exists>items fm.
           purgeContent (ctx_tailwindConfig (contexts s' c)) = Inr items \<and>
           (\<forall>f\<in>set (fastGlobSync X (fs s) cands). fs s f \<noteq> None) \<and>
           fileModifiedMaps s' c = updatedMap (fs s) fm (fastGlobSync X (fs s) cands)))"
proof -
  from setupTrackingContext_Inr [OF a] obtain cfg up h ds s1 isNew s2 cands s3 where
    g: "getTailwindConfig X cop s = (Inr (Some cfg, up, Some h, Some ds), s1)"
    and gc: "getContext D root result (Some cfg) up (Some h)
       (collectContextDependencies (map Some ds) D result) s1 = (Inr (c, isNew), s2)"
    and gf: "getCandidateFiles X c up cfg s2 = (Inr cands, s3)"
    and rest: "if D = {}
      then s' = foldl (\<lambda>s file. registerDependency (Some file) None s) s3 ds
      else \<exists>cc s4.
             resolvedChangedContent X c cands c (foldl (registerCandidate X) s3 cands) = (Inr cc, s4) \<and>
             s' = foldl (\<lambda>s file. registerDependency (Some file) None s)
                    (foldl (\<lambda>s entry. pushChanged c entry s) s4 cc) ds"
    by blast
  from getTailwindConfig_frame [OF g] obtain l rc tr1 where
    s1: "s1 = s\<lparr>configPathCache := l, requireCache := rc, trace := trace s @ tr1\<rparr>"
    by blast
  have f1: "fs s1 = fs s" by (simp add: s1)
  from getContext_Inr [OF gc] obtain wo tr2 where
    s2: "if isNew
            then c = nextContext s1 \<and>
                 s2 = s1\<lparr>watcherObjects := wo, trace := trace s1 @ tr2,
                        contexts := (contexts s1)
                          (c := \<lparr>ctx_tailwindConfig = cfg, ctx_changedContent = [],
                                 ctx_disposables = 0\<rparr>),
                        fileModifiedMaps := (fileModifiedMaps s1)(c := Map.empty),
                        nextContext := Suc c,
                        contextMap := (contextMap s1)
                          (opts_from result \<mapsto>
                             (h, collectContextDependencies (map Some ds) D result, c))\<rparr>
            else s2 = s1 \<and>
                 contextMap s1 (opts_from result) =
                   Some (h, collectContextDependencies (map Some ds) D result, c)"
    by auto
  have f2: "fs s2 = fs s" "configPathCache s2 = configPathCache s1"
    "contextMap s2 (opts_from result) =
       Some (h, collectContextDependencies (map Some ds) D result, c)"
    using s2 f1 by (cases isNew; simp)+
  have s3: "s3 = s2\<lparr>candidateFilesCache := (candidateFilesCache s2)(c \<mapsto> cands)\<rparr>"
    using getCandidateFiles_Inr [OF gf] .
  show ?thesis
  proof (cases "D = {}")
    case True
    with rest have "s' = foldl (\<lambda>s file. registerDependency (Some file) None s) s3 ds" by simp
    then have "fs s' = fs s" "configPathCache s' = configPathCache s1"
      "contextMap s' (opts_from result) =
         Some (h, collectContextDependencies (map Some ds) D result, c)"
      "candidateFilesCache s' c = Some cands"
      by (simp_all add: foldl_registerDependency s3 f2)
    with g True show ?thesis by blast
  next
    case False
    let ?s3r = "foldl (registerCandidate X) s3 cands"
    from False rest obtain cc s4 where
      r: "resolvedChangedContent X c cands c ?s3r = (Inr cc, s4)"
      and s': "s' = foldl (\<lambda>s file. registerDependency (Some file) None s)
                    (foldl (\<lambda>s entry. pushChanged c entry s) s4 cc) ds"
      by auto
    have f3: "fs ?s3r = fs s" "contexts ?s3r = contexts s3" "fileModifiedMaps ?s3r = fileModifiedMaps s3"
      by (simp_all add: foldl_registerCandidate s3 f2)
    from resolvedChangedContent_Inr [OF r] obtain items where
      items: "purgeContent (ctx_tailwindConfig (contexts s3 c)) = Inr items"
      and ex: "\<forall>f\<in>set (fastGlobSync X (fs s) cands). fs s f \<noteq> None"
      and s4: "\<exists>tr. s4 = ?s3r\<lparr>fileModifiedMaps :=
              (fileModifiedMaps s3)
                (c := updatedMap (fs s) (fileModifiedMaps s3 c) (fastGlobSync X (fs s) cands)),
            trace := trace ?s3r @ tr\<rparr>"
      unfolding f3 by blast
    from s4 obtain tr where s4e: "s4 = ?s3r\<lparr>fileModifiedMaps :=
              (fileModifiedMaps s3)
                (c := updatedMap (fs s) (fileModifiedMaps s3 c) (fastGlobSync X (fs s) cands)),
            trace := trace ?s3r @ tr\<rparr>" by blast
    have "fs s' = fs s" "configPathCache s' = configPathCache s1"
      "contextMap s' (opts_from result) =
         Some (h, collectContextDependencies (map Some ds) D result, c)"
      "candidateFilesCache s' c = Some cands"
      "purgeContent (ctx_tailwindConfig (contexts s' c)) = Inr items"
      "fileModifiedMaps s' c =
         updatedMap (fs s) (fileModifiedMaps s3 c) (fastGlobSync X (fs s) cands)"
      using items
      by (simp_all add: s' s4e foldl_registerDependency foldl_pushChanged foldl_registerCandidate
            s3 f2)
    with g ex show ?thesis by blast
  qed
qed

text \<open>
  C1 (as stated, it fails for a configuration with inline raw content). In the sample
  project the configuration holds one raw entry: the second of two successive
  build-mode requests, with nothing changed on disk, returns the same context and
  appends that entry again.
\<close>

theorem setupTrackingContext_idempotence_counterexample:
  "fst (setupTrackingContext sampleX (ArgString ''/proj/tw.config'') {''base''} sampleResult 0
          sampleState) = Inr 0 \<and>
   fst (setupTrackingContext sampleX (ArgString ''/proj/tw.config'') {''base''} sampleResult 0
          (snd (setupTrackingContext sampleX (ArgString ''/proj/tw.config'') {''base''}
                  sampleResult 0 sampleState))) = Inr 0 \<and>
   ctx_changedContent
     (contexts (snd (setupTrackingContext sampleX (ArgString ''/proj/tw.config'') {''base''}
                       sampleResult 0 sampleState)) 0) =
     [\<lparr>content = ''<div class=p-4>'', extension = Some ''html''\<rparr>,
      \<lparr>content = ''<p class=m-1>'', extension = Some ''html''\<rparr>] \<and>
   ctx_changedContent
     (contexts
        (snd (setupTrackingContext sampleX (ArgString ''/proj/tw.config'') {''base''} sampleResult 0
                (snd (setupTrackingContext sampleX (ArgString ''/proj/tw.config'') {''base''}
                        sampleResult 0 sampleState)))) 0) =
     [\<lparr>content = ''<div class=p-4>'', extension = Some ''html''\<rparr>,
      \<lparr>content = ''<p class=m-1>'', extension = Some ''html''\<rparr>,
      \<lparr>content = ''<div class=p-4>'', extension = Some ''html''\<rparr>]"
  by (simp add: entry_defs sample_defs)

text \<open>
  C1, amended. After a build-mode request that returned the context \<open>c\<close>, the same
  request again, with nothing changed in between, returns \<open>c\<close> again and reads the
  contents of no file (\<^verbatim>\<open>readFileSync\<close> is not called); with an empty directive set it changes no context; with directives it appends
  to \<open>changedContent\<close> exactly the inline raw entries of the context's configuration, so
  that nothing is appended when the content list holds no raw descriptor.
\<close>

theorem setupTrackingContext_second_request:
  "setupTrackingContext X configOrPath D result root s = (Inr c, s') \<longrightarrow>
     (\<exists>s''. setupTrackingContext X configOrPath D result root s' = (Inr c, s'') \<and>
            readsOf (trace s'') = readsOf (trace s') \<and>
            fs s'' = fs s' \<and>
            (D = {} \<longrightarrow> contexts s'' = contexts s') \<and>
            (D \<noteq> {} \<longrightarrow>
               (\<exists>items.
                  purgeContent (ctx_tailwindConfig (contexts s' c)) = Inr items \<and>
                  ctx_changedContent (contexts s'' c) =
                    ctx_changedContent (contexts s' c) @ rawItems items \<and>
                  (\<forall>c'. c' \<noteq> c \<longrightarrow> contexts s'' c' = contexts s' c'))))"
proof
  assume a: "setupTrackingContext X configOrPath D result root s = (Inr c, s')"
  from setupTrackingContext_after [OF a] obtain cfg up h ds s1 cands where
    g: "getTailwindConfig X configOrPath s = (Inr (Some cfg, up, Some h, Some ds), s1)"
    and fs': "fs s' = fs s"
    and cpc: "configPathCache s' = configPathCache s1"
    and cm: "contextMap s' (opts_from result) =
       Some (h, collectContextDependencies (map Some ds) D result, c)"
    and cf: "candidateFilesCache s' c = Some cands"
    and scan: "D \<noteq> {} \<longrightarrow>
        (\<exists>items fm.
           purgeContent (ctx_tailwindConfig (contexts s' c)) = Inr items \<and>
           (\<forall>f\<in>set (fastGlobSync X (fs s) cands). fs s f \<noteq> None) \<and>
           fileModifiedMaps s' c = updatedMap (fs s) fm (fastGlobSync X (fs s) cands))"
    by blast
  from getTailwindConfig_repeat [OF g fs' cpc] obtain l2 tr where
    gt: "getTailwindConfig X configOrPath s' =
           (Inr (Some cfg, up, Some h, Some ds),
            s'\<lparr>configPathCache := l2, trace := trace s' @ tr\<rparr>)"
    and tr: "readsOf tr = []" by blast
  let ?t1 = "s'\<lparr>configPathCache := l2, trace := trace s' @ tr\<rparr>"
  let ?deps = "collectContextDependencies (map Some ds) D result"
  have gc: "getContext D root result (Some cfg) up (Some h) ?deps ?t1 = (Inr (c, False), ?t1)"
    by (rule getContext_hit) (simp add: cm)
  have gf: "getCandidateFiles X c up cfg ?t1 = (Inr cands, ?t1)"
    by (rule getCandidateFiles_cached) (simp add: cf)
  show "\<exists>s''. setupTrackingContext X configOrPath D result root s' = (Inr c, s'') \<and>
            readsOf (trace s'') = readsOf (trace s') \<and>
            fs s'' = fs s' \<and>
            (D = {} \<longrightarrow> contexts s'' = contexts s') \<and>
            (D \<noteq> {} \<longrightarrow>
               (\<exists>items.
                  purgeContent (ctx_tailwindConfig (contexts s' c)) = Inr items \<and>
                  ctx_changedContent (contexts s'' c) =
                    ctx_changedContent (contexts s' c) @ rawItems items \<and>
                  (\<forall>c'. c' \<noteq> c \<longrightarrow> contexts s'' c' = contexts s' c')))"
  proof (cases "D = {}")
    case True
    let ?s'' = "foldl (\<lambda>s file. registerDependency (Some file) None s) ?t1 ds"
    have "setupTrackingContext X configOrPath D result root s' = (Inr c, ?s'')"
      unfolding setupTrackingContext_def gt using True gc gf by simp
    moreover have "readsOf (trace ?s'') = readsOf (trace s')"
      by (simp add: foldl_registerDependency readsOf_append tr)
    moreover have "fs ?s'' = fs s'" "contexts ?s'' = contexts s'"
      by (simp_all add: foldl_registerDependency)
    ultimately show ?thesis using True by blast
  next
    case False
    with scan obtain items fm where
      items: "purgeContent (ctx_tailwindConfig (contexts s' c)) = Inr items"
      and ex: "\<forall>f\<in>set (fastGlobSync X (fs s) cands). fs s f \<noteq> None"
      and fmm: "fileModifiedMaps s' c = updatedMap (fs s) fm (fastGlobSync X (fs s) cands)"
      by blast
    let ?files = "fastGlobSync X (fs s) cands"
    let ?t3 = "foldl (registerCandidate X) ?t1 cands"
    have f3: "fs ?t3 = fs s" "contexts ?t3 = contexts s'" "fileModifiedMaps ?t3 = fileModifiedMaps s'"
      by (simp_all add: foldl_registerCandidate fs')
    have ex3: "\<forall>f\<in>set (fastGlobSync X (fs ?t3) cands). fs ?t3 f \<noteq> None"
      unfolding f3 using ex .
    let ?st = "?t3\<lparr>fileModifiedMaps :=
           (fileModifiedMaps ?t3)
             (c := updatedMap (fs ?t3) (fileModifiedMaps ?t3 c) (fastGlobSync X (fs ?t3) cands)),
         trace := trace ?t3 @ (if env_DEBUG X then [ConsoleTime] else []) @
                  Glob cands # map Stat (fastGlobSync X (fs ?t3) cands) @
                  (if env_DEBUG X then [ConsoleTimeEnd] else [])\<rparr>"
    have none: "filter (newerFile (fs ?t3) (fileModifiedMaps ?t3 c)) (fastGlobSync X (fs ?t3) cands) = []"
      unfolding f3 fmm by (rule filter_newer_updatedMap)
    have rf: "resolveChangedFiles X cands c ?t3 = (Inr [], ?st)"
      unfolding resolveChangedFiles_ok [OF ex3, of c] none by simp
    have rc: "resolvedChangedContent X c cands c ?t3 = (Inr (rawItems items), ?st)"
      unfolding resolvedChangedContent_def f3 items rf by simp
    let ?s'' = "foldl (\<lambda>s file. registerDependency (Some file) None s)
                  (foldl (\<lambda>s entry. pushChanged c entry s) ?st (rawItems items)) ds"
    have "setupTrackingContext X configOrPath D result root s' = (Inr c, ?s'')"
      unfolding setupTrackingContext_def gt getFileModifiedMap_def using False gc gf rc by simp
    moreover have "readsOf (trace ?s'') = readsOf (trace s')"
      by (simp add: foldl_registerDependency foldl_pushChanged foldl_registerCandidate
            readsOf_append readsOf_Stat tr)
    moreover have "fs ?s'' = fs s'"
      by (simp add: foldl_registerDependency foldl_pushChanged foldl_registerCandidate)
    moreover have "ctx_changedContent (contexts ?s'' c) =
                     ctx_changedContent (contexts s' c) @ rawItems items"
      by (simp add: foldl_registerDependency foldl_pushChanged foldl_registerCandidate)
    moreover have "\<forall>c'. c' \<noteq> c \<longrightarrow> contexts ?s'' c' = contexts s' c'"
      by (simp add: foldl_registerDependency foldl_pushChanged foldl_registerCandidate)
    ultimately show ?thesis using False items by blast
  qed
qed

theorem setupTrackingContext_second_request_witness:
  "fst (setupTrackingContext sampleX (ArgString ''/proj/tw.config'') {''base''} sampleResult 0
          (snd (setupTrackingContext sampleX (ArgString ''/proj/tw.config'') {''base''}
                  sampleResult 0 sampleState))) = Inr 0 \<and>
   readsOf (trace
      (snd (setupTrackingContext sampleX (ArgString ''/proj/tw.config'') {''base''} sampleResult 0
              (snd (setupTrackingContext sampleX (ArgString ''/proj/tw.config'') {''base''}
                      sampleResult 0 sampleState))))) = [''/proj/src/a.html''] \<and>
   fst (setupTrackingContext sampleX (ArgString ''/proj/tw.config'') {} sampleResult 0
          (snd (setupTrackingContext sampleX (ArgString ''/proj/tw.config'') {}
                  sampleResult 0 sampleState))) = Inr 0 \<and>
   ctx_changedContent
     (contexts
        (snd (setupTrackingContext sampleX (ArgString ''/proj/tw.config'') {} sampleResult 0
                (snd (setupTrackingContext sampleX (ArgString ''/proj/tw.config'') {}
                        sampleResult 0 sampleState)))) 0) = []"
proof -
  let ?A = "ArgString ''/proj/tw.config''"
  let ?b1 = "setupTrackingContext sampleX ?A {''base''} sampleResult 0 sampleState"
  let ?b2 = "setupTrackingContext sampleX ?A {''base''} sampleResult 0 (snd ?b1)"
  let ?p1 = "setupTrackingContext sampleX ?A {} sampleResult 0 sampleState"
  let ?p2 = "setupTrackingContext sampleX ?A {} sampleResult 0 (snd ?p1)"
  have f1: "fst ?b1 = Inr 0" and g1: "fst ?p1 = Inr 0"
    by (simp_all add: entry_defs sample_defs)
  have e1: "?b1 = (Inr 0, snd ?b1)" using f1 by (simp add: prod_eq_iff)
  have h1: "?p1 = (Inr 0, snd ?p1)" using g1 by (simp add: prod_eq_iff)
  have r1: "readsOf (trace (snd ?b1)) = [''/proj/src/a.html'']"
    by (simp add: entry_defs sample_defs)
  have c1: "ctx_changedContent (contexts (snd ?p1) 0) = []"
    by (simp add: entry_defs sample_defs)
  from setupTrackingContext_second_request
         [of sampleX ?A "{''base''}" sampleResult 0 sampleState 0 "snd ?b1", THEN mp, OF e1]
  obtain s2 where
    b2: "?b2 = (Inr 0, s2)" "readsOf (trace s2) = readsOf (trace (snd ?b1))"
    by (elim exE conjE)
  from setupTrackingContext_second_request
         [of sampleX ?A "{}" sampleResult 0 sampleState 0 "snd ?p1", THEN mp, OF h1]
  obtain t2 where
    p2: "?p2 = (Inr 0, t2)" "({} :: string set) = {} \<longrightarrow> contexts t2 = contexts (snd ?p1)"
    by (elim exE conjE)
  from b2 r1 have "fst ?b2 = Inr 0" "readsOf (trace (snd ?b2)) = [''/proj/src/a.html'']"
    by simp_all
  moreover from p2 c1 have "fst ?p2 = Inr 0" "ctx_changedContent (contexts (snd ?p2) 0) = []"
    by simp_all
  ultimately show ?thesis by simp
qed

end
